theory Spec2Isabelle
  imports Main "HOL-Library.List_Lexorder" "HOL-Library.AList" "HOL-Library.Multiset"
begin

section \<open>Python values\<close>

text \<open>
  A Python \<open>str\<close> is a sequence of Unicode code points. Strings compare
  lexicographically by code point, which is the order of \<open>nat list\<close> under
  the lexicographic list order.
\<close>

type_synonym pystr = "nat list"

text \<open>An ASCII literal as a Python string.\<close>

definition py :: "string \<Rightarrow> pystr" where
  "py s = map of_char s"

text \<open>
  The values of a cell of the \<open>emojis\<close> column that the model covers:
  \<open>None\<close>, the float \<open>NaN\<close> that pandas puts where a CSV cell is empty,
  a string, and an integer as the one present value that is not a string.
  Other Python values (bytes, lists, other floats) are not modelled.
\<close>

datatype pyval = PyNone | PyNaN | PyStr pystr | PyInt int

datatype py_error = AttributeError | KeyError

text \<open>\<open>isinstance(x, str)\<close>\<close>

fun is_str :: "pyval \<Rightarrow> bool" where
  "is_str (PyStr s) = True"
| "is_str x = False"

text \<open>\<open>pd.isna\<close> on a scalar: true for \<open>None\<close> and \<open>NaN\<close> only.\<close>

fun isna :: "pyval \<Rightarrow> bool" where
  "isna PyNone = True"
| "isna PyNaN = True"
| "isna (PyStr s) = False"
| "isna (PyInt n) = False"

text \<open>
  The code points for which \<open>str.isspace\<close> holds; \<open>str.split()\<close> and
  \<open>str.strip()\<close> both use this set.
\<close>

definition isspace :: "nat \<Rightarrow> bool" where
  "isspace c = ((9 \<le> c \<and> c \<le> 13) \<or> (28 \<le> c \<and> c \<le> 32) \<or> c = 133 \<or> c = 160
     \<or> c = 5760 \<or> (8192 \<le> c \<and> c \<le> 8202) \<or> c = 8232 \<or> c = 8233 \<or> c = 8239
     \<or> c = 8287 \<or> c = 12288)"

text \<open>
  \<open>x.split()\<close> with no separator: skip a run of whitespace; if the
  string ends there, stop; otherwise the characters up to the next whitespace
  are one token, and the scan goes on behind it.
\<close>

function str_split :: "pystr \<Rightarrow> pystr list" where
  "str_split s =
     (if dropWhile isspace s = [] then []
      else takeWhile (\<lambda>x. \<not> isspace x) (dropWhile isspace s)
           # str_split (dropWhile (\<lambda>x. \<not> isspace x) (dropWhile isspace s)))"
  by pat_completeness auto
termination
proof (relation "measure length")
  show "wf (measure length)" by simp
next
  fix s :: pystr
  assume ne: "dropWhile isspace s \<noteq> []"
  then obtain c cs where r: "dropWhile isspace s = c # cs"
    by (cases "dropWhile isspace s") auto
  have "\<not> isspace c"
    using r hd_dropWhile [of isspace s] by auto
  then have "dropWhile (\<lambda>x. \<not> isspace x) (c # cs) = dropWhile (\<lambda>x. \<not> isspace x) cs"
    by simp
  moreover have "length (dropWhile (\<lambda>x. \<not> isspace x) cs) \<le> length cs"
    by (rule length_dropWhile_le)
  moreover have "length (c # cs) \<le> length s"
    using length_dropWhile_le [of isspace s] r by simp
  ultimately show "(dropWhile (\<lambda>x. \<not> isspace x) (dropWhile isspace s), s) \<in> measure length"
    using r by simp
qed

declare str_split.simps [simp del]

text \<open>\<open>e.strip()\<close>: drop the whitespace at both ends.\<close>

definition str_strip :: "pystr \<Rightarrow> pystr" where
  "str_strip s = rev (dropWhile isspace (rev (dropWhile isspace s)))"

text \<open>\<open>' '.join(emojis)\<close>, as the crawler writes the field.\<close>

fun str_join :: "pystr \<Rightarrow> pystr list \<Rightarrow> pystr" where
  "str_join sep [] = []"
| "str_join sep [t] = t"
| "str_join sep (t # u # ts) = t @ sep @ str_join sep (u # ts)"

section \<open>GraphBuilder.parse_emojis\<close>

text \<open>
  \<open>if pd.isna(x): return []\<close>, then \<open>[e.strip() for e in x.split()]\<close>.
  An integer has no \<open>split\<close> method: there the attribute lookup raises
  \<open>AttributeError\<close>.
\<close>

fun parse_emojis :: "pyval \<Rightarrow> py_error + pystr list" where
  "parse_emojis x =
     (if isna x then Inr []
      else (case x of
              PyStr s \<Rightarrow> Inr (map str_strip (str_split s))
            | _ \<Rightarrow> Inl AttributeError))"

section \<open>collections.Counter\<close>

text \<open>
  A \<open>Counter\<close> is a dict, and a dict keeps its keys in insertion order:
  an association list with distinct keys. Reading a missing key gives 0.
\<close>

type_synonym 'k counter = "('k \<times> int) list"

definition counter_get :: "'k counter \<Rightarrow> 'k \<Rightarrow> int" where
  "counter_get c k = (case map_of c k of None \<Rightarrow> 0 | Some n \<Rightarrow> n)"

text \<open>\<open>c[k] += 1\<close>: read (0 when missing), then store.\<close>

definition counter_incr :: "'k counter \<Rightarrow> 'k \<Rightarrow> 'k counter" where
  "counter_incr c k = AList.update k (counter_get c k + 1) c"

text \<open>\<open>Counter(iterable)\<close>: one increment per element, in order.\<close>

definition Counter :: "'k list \<Rightarrow> 'k counter" where
  "Counter xs = foldl counter_incr [] xs"

text \<open>\<open>itertools.combinations(xs, 2)\<close>: the pairs of positions i < j, in order.\<close>

fun combinations2 :: "'a list \<Rightarrow> ('a \<times> 'a) list" where
  "combinations2 [] = []"
| "combinations2 (x # xs) = map (Pair x) xs @ combinations2 xs"

section \<open>The reviews DataFrame\<close>

text \<open>
  One row per review, with the columns the crawler writes. The column
  \<open>emoji_list\<close> is absent (\<open>None\<close>) until \<open>create_nodes\<close> assigns it.
\<close>

record review_record =
  name :: pystr
  category :: pystr
  review :: pystr
  emojis :: pyval
  rating :: int
  url :: pystr

record dataframe =
  rows :: "review_record list"
  emoji_list :: "pystr list list option"

text \<open>
  \<open>Series.apply(f)\<close>: \<open>f\<close> on each cell in order; the first exception
  leaves the call.
\<close>

fun series_apply :: "('a \<Rightarrow> py_error + 'b) \<Rightarrow> 'a list \<Rightarrow> py_error + 'b list" where
  "series_apply f [] = Inr []"
| "series_apply f (x # xs) =
     (case f x of
        Inl e \<Rightarrow> Inl e
      | Inr y \<Rightarrow> (case series_apply f xs of Inl e \<Rightarrow> Inl e | Inr ys \<Rightarrow> Inr (y # ys)))"

section \<open>networkx.Graph\<close>

text \<open>
  The two dicts of a \<open>networkx.Graph\<close>: \<open>_node\<close> maps a node to its
  attributes (here only \<open>frequency\<close>, absent until it is set), \<open>_adj\<close>
  maps a node to its neighbours, each with the edge's \<open>weight\<close>.
\<close>

record nxgraph =
  g_node :: "pystr \<rightharpoonup> int option"
  g_adj :: "pystr \<rightharpoonup> (pystr \<rightharpoonup> int)"

definition nx_Graph :: nxgraph where
  "nx_Graph = \<lparr>g_node = Map.empty, g_adj = Map.empty\<rparr>"

text \<open>
  \<open>if u not in self._node: self._adj[u] = {}; self._node[u] = {}\<close>
\<close>

definition touch_node :: "pystr \<Rightarrow> nxgraph \<Rightarrow> nxgraph" where
  "touch_node u g =
     (if g_node g u = None
      then g\<lparr>g_node := (g_node g)(u \<mapsto> None), g_adj := (g_adj g)(u \<mapsto> Map.empty)\<rparr>
      else g)"

text \<open>
  \<open>self._adj[u][v] = datadict\<close>, where \<open>datadict\<close> holds the weight.
  \<open>add_edge\<close> reaches it only after \<open>u\<close> has its entry in \<open>_adj\<close>.
\<close>

definition set_adj :: "pystr \<Rightarrow> pystr \<Rightarrow> int \<Rightarrow> nxgraph \<Rightarrow> nxgraph" where
  "set_adj u v w g =
     (case g_adj g u of
        None \<Rightarrow> g
      | Some nb \<Rightarrow> g\<lparr>g_adj := (g_adj g)(u \<mapsto> nb(v \<mapsto> w))\<rparr>)"

text \<open>\<open>G.add_edge(u, v, weight=w)\<close>\<close>

definition add_edge :: "pystr \<Rightarrow> pystr \<Rightarrow> int \<Rightarrow> nxgraph \<Rightarrow> nxgraph" where
  "add_edge u v w g = set_adj v u w (set_adj u v w (touch_node v (touch_node u g)))"

text \<open>
  \<open>nx.set_node_attributes(G, values, name="frequency")\<close>: for each key
  \<open>n\<close> of \<open>values\<close>, \<open>G.nodes[n]["frequency"] = values[n]\<close>; a key that
  is not a node raises \<open>KeyError\<close> inside, which is caught and passed over.
\<close>

definition set_node_attributes :: "nxgraph \<Rightarrow> pystr counter \<Rightarrow> nxgraph" where
  "set_node_attributes G vals =
     foldl (\<lambda>g (n, v). (case g_node g n of
                            None \<Rightarrow> g
                          | Some a \<Rightarrow> g\<lparr>g_node := (g_node g)(n \<mapsto> Some (counter_get vals n))\<rparr>))
           G vals"

text \<open>The number of neighbours of a node; a self-loop counts twice.\<close>

definition degree :: "nxgraph \<Rightarrow> pystr \<Rightarrow> nat" where
  "degree g n =
     (case g_adj g n of
        None \<Rightarrow> 0
      | Some nb \<Rightarrow> card (dom nb) + (if nb n = None then 0 else 1))"

section \<open>GraphBuilder\<close>

record GraphBuilder =
  reviews :: dataframe
  graph :: nxgraph

text \<open>\<open>GraphBuilder(reviews)\<close>\<close>

definition new_GraphBuilder :: "dataframe \<Rightarrow> GraphBuilder" where
  "new_GraphBuilder df = \<lparr>reviews = df, graph = nx_Graph\<rparr>"

text \<open>
  The body of the loop of \<open>create_nodes\<close> for one review: nothing for a
  list shorter than 2, else one increment for each pair of
  \<open>combinations(sorted(set(emojis)), 2)\<close>.
\<close>

definition count_review :: "('a::linorder \<times> 'a) counter \<Rightarrow> 'a list \<Rightarrow> ('a \<times> 'a) counter" where
  "count_review edge_counter es =
     (if length es < 2 then edge_counter
      else foldl counter_incr edge_counter (combinations2 (sorted_list_of_set (set es))))"

text \<open>
  \<open>create_nodes\<close>: assign the column \<open>emoji_list\<close> of \<open>self.reviews\<close>,
  then count the pairs of every review into a new counter.
\<close>

definition create_nodes :: "GraphBuilder \<Rightarrow> py_error + (GraphBuilder \<times> (pystr \<times> pystr) counter)" where
  "create_nodes self =
     (case series_apply parse_emojis (map emojis (rows (reviews self))) of
        Inl e \<Rightarrow> Inl e
      | Inr ell \<Rightarrow>
          Inr (self\<lparr>reviews := (reviews self)\<lparr>emoji_list := Some ell\<rparr>\<rparr>,
               foldl count_review [] ell))"

text \<open>
  The loop \<open>for (e1, e2), weight in edge_counter.items(): self.graph.add_edge(e1, e2, weight=weight)\<close>
\<close>

definition add_edges :: "(pystr \<times> pystr) counter \<Rightarrow> nxgraph \<Rightarrow> nxgraph" where
  "add_edges edge_counter g = foldl (\<lambda>g ((e1, e2), weight). add_edge e1 e2 weight g) g edge_counter"

text \<open>\<open>Counter(e for emojis in self.reviews["emoji_list"] for e in emojis)\<close>\<close>

definition emoji_freq :: "pystr list list \<Rightarrow> pystr counter" where
  "emoji_freq ell = Counter (concat ell)"

text \<open>
  \<open>build_graph\<close> returns \<open>self.graph\<close>, which it has updated in place;
  the model returns the builder after the call and the graph.
\<close>

definition build_graph :: "GraphBuilder \<Rightarrow> py_error + (GraphBuilder \<times> nxgraph)" where
  "build_graph self =
     (case create_nodes self of
        Inl e \<Rightarrow> Inl e
      | Inr (self1, edge_counter) \<Rightarrow>
          (case emoji_list (reviews self1) of
             None \<Rightarrow> Inl KeyError
           | Some ell \<Rightarrow>
               (let g = set_node_attributes (add_edges edge_counter (graph self1)) (emoji_freq ell)
                in Inr (self1\<lparr>graph := g\<rparr>, g))))"

section \<open>Auxiliary notions and example corpora\<close>

text \<open>The neighbours of a node, none when it is not in the graph.\<close>

definition nbrs :: "nxgraph \<Rightarrow> pystr \<Rightarrow> (pystr \<rightharpoonup> int)" where
  "nbrs g n = (case g_adj g n of None \<Rightarrow> Map.empty | Some nb \<Rightarrow> nb)"

text \<open>The tokens that occur in a key of a pair counter.\<close>

definition endpoints :: "(pystr \<times> pystr) counter \<Rightarrow> pystr set" where
  "endpoints ec = fst ` fst ` set ec \<union> snd ` fst ` set ec"

text \<open>A review record with the given \<open>emojis\<close> cell; the core reads no other field.\<close>

definition review_of :: "pyval \<Rightarrow> review_record" where
  "review_of x = \<lparr>name = [], category = [], review = [], emojis = x, rating = 0, url = []\<rparr>"

definition corpus_of :: "pyval list \<Rightarrow> dataframe" where
  "corpus_of xs = \<lparr>rows = map review_of xs, emoji_list = None\<rparr>"

text \<open>Scenario A of the specification.\<close>

definition scenario_A :: dataframe where
  "scenario_A = corpus_of [PyStr (py '':smile: :heart:''), PyStr (py '':smile: :heart: :smile:''),
                           PyStr (py '':wow:''), PyNone]"

text \<open>Scenario B: one review that repeats a single token.\<close>

definition scenario_B :: dataframe where
  "scenario_B = corpus_of [PyStr (py '':a: :a: :a:'')]"

text \<open>A corpus whose second record holds an integer in \<open>emojis\<close>.\<close>

definition malformed_corpus :: dataframe where
  "malformed_corpus = corpus_of [PyStr (py '':a: :b:''), PyInt 5, PyStr (py '':a: :b:'')]"

section \<open>Properties of the parser\<close>

lemma str_split_Nil: "dropWhile isspace s = [] \<Longrightarrow> str_split s = []"
  by (subst str_split.simps) simp

lemma str_split_Cons:
  "dropWhile isspace s \<noteq> [] \<Longrightarrow>
   str_split s = takeWhile (\<lambda>x. \<not> isspace x) (dropWhile isspace s)
                 # str_split (dropWhile (\<lambda>x. \<not> isspace x) (dropWhile isspace s))"
  by (subst str_split.simps) (simp only: if_False)

lemma dropWhile_isspace_hd:
  "dropWhile isspace s \<noteq> [] \<Longrightarrow> takeWhile (\<lambda>x. \<not> isspace x) (dropWhile isspace s) \<noteq> []"
proof -
  assume ne: "dropWhile isspace s \<noteq> []"
  then obtain c cs where r: "dropWhile isspace s = c # cs"
    by (cases "dropWhile isspace s") auto
  have "\<not> isspace c" using r hd_dropWhile [of isspace s] by auto
  then show ?thesis using r by simp
qed

lemma str_split_tokens:
  "t \<in> set (str_split s) \<Longrightarrow> t \<noteq> [] \<and> (\<forall>c\<in>set t. \<not> isspace c)"
proof (induction s rule: str_split.induct)
  case (1 s)
  show ?case
  proof (cases "dropWhile isspace s = []")
    case True
    with "1.prems" show ?thesis by (simp add: str_split_Nil)
  next
    case False
    from "1.prems" False
    consider "t = takeWhile (\<lambda>x. \<not> isspace x) (dropWhile isspace s)"
      | "t \<in> set (str_split (dropWhile (\<lambda>x. \<not> isspace x) (dropWhile isspace s)))"
      by (auto simp: str_split_Cons)
    then show ?thesis
    proof cases
      case 1
      then show ?thesis using dropWhile_isspace_hd [OF False] by (auto dest: set_takeWhileD)
    next
      case 2
      show ?thesis by (rule "1.IH" [OF False 2])
    qed
  qed
qed

lemma str_strip_id: "\<forall>c\<in>set t. \<not> isspace c \<Longrightarrow> str_strip t = t"
proof -
  assume a: "\<forall>c\<in>set t. \<not> isspace c"
  then have "dropWhile isspace t = t" by (cases t) auto
  moreover from a have "dropWhile isspace (rev t) = rev t" by (cases "rev t") (auto simp: rev_swap [symmetric] simp del: rev_swap)
  ultimately show ?thesis by (simp add: str_strip_def)
qed

lemma map_str_strip_split: "map str_strip (str_split s) = str_split s"
proof -
  have "\<forall>t\<in>set (str_split s). str_strip t = t"
    using str_split_tokens str_strip_id by blast
  then show ?thesis by (simp add: map_idI)
qed

lemma filter_nonspace_dropWhile:
  "filter (\<lambda>c. \<not> isspace c) (dropWhile isspace s) = filter (\<lambda>c. \<not> isspace c) s"
  by (induction s) auto

lemma filter_nonspace_split:
  "filter (\<lambda>c. \<not> isspace c) r
   = takeWhile (\<lambda>x. \<not> isspace x) r @ filter (\<lambda>c. \<not> isspace c) (dropWhile (\<lambda>x. \<not> isspace x) r)"
  by (induction r) auto

lemma concat_str_split: "concat (str_split s) = filter (\<lambda>c. \<not> isspace c) s"
proof (induction s rule: str_split.induct)
  case (1 s)
  show ?case
  proof (cases "dropWhile isspace s = []")
    case True
    have "filter (\<lambda>c. \<not> isspace c) (dropWhile isspace s) = []" unfolding True by simp
    then have "filter (\<lambda>c. \<not> isspace c) s = []" by (simp only: filter_nonspace_dropWhile)
    then show ?thesis using True by (simp add: str_split_Nil)
  next
    case False
    have "concat (str_split s)
        = takeWhile (\<lambda>x. \<not> isspace x) (dropWhile isspace s)
          @ concat (str_split (dropWhile (\<lambda>x. \<not> isspace x) (dropWhile isspace s)))"
      by (simp add: str_split_Cons [OF False])
    also have "\<dots> = takeWhile (\<lambda>x. \<not> isspace x) (dropWhile isspace s)
          @ filter (\<lambda>c. \<not> isspace c) (dropWhile (\<lambda>x. \<not> isspace x) (dropWhile isspace s))"
      by (simp only: "1.IH" [OF False])
    also have "\<dots> = filter (\<lambda>c. \<not> isspace c) (dropWhile isspace s)"
      by (rule filter_nonspace_split [symmetric])
    also have "\<dots> = filter (\<lambda>c. \<not> isspace c) s"
      by (rule filter_nonspace_dropWhile)
    finally show ?thesis .
  qed
qed

lemma str_split_ws: "\<forall>c\<in>set s. isspace c \<Longrightarrow> str_split s = []"
  by (rule str_split_Nil) simp

lemma str_split_token_append:
  assumes t: "t \<noteq> []" "\<forall>c\<in>set t. \<not> isspace c"
    and r: "r = [] \<or> isspace (hd r)"
  shows "str_split (t @ r) = t # str_split r"
proof -
  obtain c cs where tc: "t = c # cs" using t(1) by (cases t) auto
  have d: "dropWhile isspace (t @ r) = t @ r" using tc t(2) by simp
  have tw: "takeWhile (\<lambda>x. \<not> isspace x) (t @ r) = t"
    using t(2) r by (cases r) (auto simp: takeWhile_append2)
  have dw: "dropWhile (\<lambda>x. \<not> isspace x) (t @ r) = r"
    using t(2) r by (cases r) (auto simp: dropWhile_append2)
  have "dropWhile isspace (t @ r) \<noteq> []" using d tc by simp
  from str_split_Cons [OF this] show ?thesis by (simp only: d tw dw)
qed

lemma str_split_sep_append:
  assumes "\<forall>c\<in>set sep. isspace c"
  shows "str_split (sep @ r) = str_split r"
proof -
  have d: "dropWhile isspace (sep @ r) = dropWhile isspace r"
    using assms by (simp add: dropWhile_append2)
  show ?thesis
    by (subst str_split.simps, subst (2) str_split.simps) (simp only: d)
qed

lemma str_split_join:
  "sep \<noteq> [] \<Longrightarrow> \<forall>c\<in>set sep. isspace c \<Longrightarrow>
   \<forall>t\<in>set ts. t \<noteq> [] \<and> (\<forall>c\<in>set t. \<not> isspace c) \<Longrightarrow>
   str_split (str_join sep ts) = ts"
proof (induction sep ts rule: str_join.induct)
  case (1 sep)
  show ?case by (simp add: str_split_Nil)
next
  case (2 sep t)
  then have "str_split (t @ []) = t # str_split []"
    by (intro str_split_token_append) auto
  then show ?case by (simp add: str_split_Nil)
next
  case (3 sep t u ts)
  have ih: "str_split (str_join sep (u # ts)) = u # ts"
    using "3.IH" "3.prems" by simp
  have "isspace (hd (sep @ str_join sep (u # ts)))"
    using "3.prems"(1,2) by (cases sep) auto
  then have "str_split (t @ (sep @ str_join sep (u # ts))) = t # str_split (sep @ str_join sep (u # ts))"
    using "3.prems"(3) by (intro str_split_token_append) auto
  also have "str_split (sep @ str_join sep (u # ts)) = str_split (str_join sep (u # ts))"
    using "3.prems"(2) by (rule str_split_sep_append)
  finally show ?case using ih by simp
qed

section \<open>Properties of the counters\<close>

lemma counter_get_incr:
  "counter_get (counter_incr c k) k' = counter_get c k' + (if k' = k then 1 else 0)"
  by (simp add: counter_get_def counter_incr_def update_conv')

lemma keys_counter_incr: "fst ` set (counter_incr c k) = insert k (fst ` set c)"
  by (simp add: counter_incr_def dom_update)

lemma distinct_counter_incr: "distinct (map fst c) \<Longrightarrow> distinct (map fst (counter_incr c k))"
  by (simp add: counter_incr_def distinct_update)

lemma counter_get_foldl:
  "counter_get (foldl counter_incr c xs) k = counter_get c k + int (count_list xs k)"
  by (induction xs arbitrary: c) (auto simp: counter_get_incr)

lemma keys_foldl_incr: "fst ` set (foldl counter_incr c xs) = fst ` set c \<union> set xs"
  by (induction xs arbitrary: c) (auto simp: keys_counter_incr)

lemma distinct_foldl_incr:
  "distinct (map fst c) \<Longrightarrow> distinct (map fst (foldl counter_incr c xs))"
  by (induction xs arbitrary: c) (auto simp: distinct_counter_incr)

lemma counter_get_entry:
  "distinct (map fst c) \<Longrightarrow> (k, n) \<in> set c \<Longrightarrow> counter_get c k = n"
  by (simp add: counter_get_def)

lemma counter_get_missing: "k \<notin> fst ` set c \<Longrightarrow> counter_get c k = 0"
proof -
  assume "k \<notin> fst ` set c"
  then have "map_of c k = None" by (simp add: map_of_eq_None_iff)
  then show ?thesis by (simp add: counter_get_def)
qed

lemma counter_get_Counter: "counter_get (Counter xs) k = int (count_list xs k)"
proof -
  have "counter_get ([] :: ('a \<times> int) list) k = 0" by (simp add: counter_get_def)
  then show ?thesis by (simp add: Counter_def counter_get_foldl)
qed

lemma keys_Counter: "fst ` set (Counter xs) = set xs"
  by (simp add: Counter_def keys_foldl_incr)

lemma distinct_Counter: "distinct (map fst (Counter xs))"
  by (simp add: Counter_def distinct_foldl_incr)

lemma count_list_concat: "count_list (concat xss) x = (\<Sum>xs\<leftarrow>xss. count_list xs x)"
  by (induction xss) auto

subsection \<open>combinations\<close>

lemma count_list_map_Pair:
  "count_list (map (Pair x) ys) (a, b) = (if a = x then count_list ys b else 0)"
  by (induction ys) auto

lemma count_list_distinct:
  "distinct ys \<Longrightarrow> count_list ys b = (if b \<in> set ys then 1 else 0)"
  by (induction ys) auto

lemma set_combinations2:
  "sorted_wrt (<) xs \<Longrightarrow> (a, b) \<in> set (combinations2 xs) \<longleftrightarrow> a \<in> set xs \<and> b \<in> set xs \<and> a < (b::'a::linorder)"
  by (induction xs) auto

lemma count_list_combinations2:
  "sorted_wrt (<) xs \<Longrightarrow>
   count_list (combinations2 xs) (a, b) = (if a \<in> set xs \<and> b \<in> set xs \<and> a < (b::'a::linorder) then 1 else 0)"
proof (induction xs)
  case Nil
  show ?case by simp
next
  case (Cons x xs)
  then have d: "distinct xs" and gt: "\<forall>y\<in>set xs. x < y" and s: "sorted_wrt (<) xs"
    by (auto simp: strict_sorted_iff)
  show ?case
    using Cons.IH [OF s] gt by (auto simp: count_list_map_Pair count_list_distinct [OF d])
qed

lemma count_review_get:
  "counter_get (count_review ec es) (a, b)
   = counter_get ec (a, b) + (if a \<in> set es \<and> b \<in> set es \<and> a < b then 1 else 0)"
proof (cases "length es < 2")
  case True
  then have "\<not> (a \<in> set es \<and> b \<in> set es \<and> a < b)"
  proof (cases es)
    case Nil then show ?thesis by simp
  next
    case (Cons x xs)
    with True have "xs = []" by (cases xs) auto
    with Cons show ?thesis by auto
  qed
  with True show ?thesis by (simp add: count_review_def)
next
  case False
  have "sorted_wrt (<) (sorted_list_of_set (set es))" by simp
  from count_list_combinations2 [OF this, of a b] False
  show ?thesis by (simp add: count_review_def counter_get_foldl)
qed

lemma keys_count_review:
  "fst ` set (count_review ec es) \<subseteq> fst ` set ec \<union> {(a, b). a \<in> set es \<and> b \<in> set es \<and> a < b}"
proof (cases "length es < 2")
  case True
  then show ?thesis by (auto simp: count_review_def)
next
  case False
  have s: "sorted_wrt (<) (sorted_list_of_set (set es))" by simp
  show ?thesis using False set_combinations2 [OF s]
    by (auto simp: count_review_def keys_foldl_incr)
qed

lemma keys_count_review_eq:
  "fst ` set (count_review ec es) = fst ` set ec \<union> {(a, b). a \<in> set es \<and> b \<in> set es \<and> a < b}"
proof (cases "length es < 2")
  case True
  have "\<not> (a \<in> set es \<and> b \<in> set es \<and> a < b)" for a b
  proof (cases es)
    case Nil then show ?thesis by simp
  next
    case (Cons x xs)
    with True have "xs = []" by (cases xs) auto
    with Cons show ?thesis by auto
  qed
  with True show ?thesis by (auto simp: count_review_def)
next
  case False
  have s: "sorted_wrt (<) (sorted_list_of_set (set es))" by simp
  show ?thesis using False set_combinations2 [OF s]
    by (auto simp: count_review_def keys_foldl_incr)
qed

lemma distinct_count_review:
  "distinct (map fst ec) \<Longrightarrow> distinct (map fst (count_review ec es))"
  by (simp add: count_review_def distinct_foldl_incr)

lemma counter_get_foldl_count_review:
  "counter_get (foldl count_review ec ell) (a, b)
   = counter_get ec (a, b) + int (length (filter (\<lambda>es. a \<in> set es \<and> b \<in> set es \<and> a < b) ell))"
  by (induction ell arbitrary: ec) (auto simp: count_review_get)

lemma keys_foldl_count_review:
  "fst ` set (foldl count_review ec ell)
   = fst ` set ec \<union> {(a, b). \<exists>es\<in>set ell. a \<in> set es \<and> b \<in> set es \<and> a < b}"
  by (induction ell arbitrary: ec) (auto simp: keys_count_review_eq)

lemma distinct_foldl_count_review:
  "distinct (map fst ec) \<Longrightarrow> distinct (map fst (foldl count_review ec ell))"
  by (induction ell arbitrary: ec) (auto simp: distinct_count_review)

section \<open>Claims about the parser\<close>

lemma parse_emojis_str: "parse_emojis (PyStr s) = Inr (map str_strip (str_split s))"
  by simp

lemma series_apply_Inr:
  "series_apply f xs = Inr ys \<Longrightarrow> list_all2 (\<lambda>x y. f x = Inr y) xs ys"
  by (induction xs arbitrary: ys) (auto split: sum.splits)

lemma series_apply_Inl:
  "series_apply f xs = Inl e \<Longrightarrow> \<exists>x\<in>set xs. f x = Inl e"
  by (induction xs) (auto split: sum.splits)

lemma series_apply_raises:
  "x \<in> set xs \<Longrightarrow> f x = Inl e \<Longrightarrow> \<exists>e'. series_apply f xs = Inl e'"
  by (induction xs) (auto split: sum.splits)

lemma parse_emojis_error: "parse_emojis x = Inl e \<Longrightarrow> e = AttributeError"
  by (cases x) auto

lemma create_nodes_Inr:
  "create_nodes self = Inr (self1, ec) \<Longrightarrow>
   \<exists>ell. series_apply parse_emojis (map emojis (rows (reviews self))) = Inr ell
       \<and> self1 = self\<lparr>reviews := (reviews self)\<lparr>emoji_list := Some ell\<rparr>\<rparr>
       \<and> ec = foldl count_review [] ell"
  by (auto simp: create_nodes_def split: sum.splits)

lemma create_nodes_raises:
  assumes "r \<in> set (rows (reviews self))" and "emojis r = PyInt n"
  shows "create_nodes self = Inl AttributeError"
proof -
  have "emojis r \<in> set (map emojis (rows (reviews self)))" using assms(1) by simp
  moreover have "parse_emojis (emojis r) = Inl AttributeError" using assms(2) by simp
  ultimately have "\<exists>e. series_apply parse_emojis (map emojis (rows (reviews self))) = Inl e"
    by (rule series_apply_raises)
  then obtain e where e: "series_apply parse_emojis (map emojis (rows (reviews self))) = Inl e" ..
  from series_apply_Inl [OF e] obtain x where "parse_emojis x = Inl e" ..
  then have "e = AttributeError" by (rule parse_emojis_error)
  with e show ?thesis by (simp add: create_nodes_def)
qed

lemma build_graph_raises: "create_nodes self = Inl e \<Longrightarrow> build_graph self = Inl e"
  by (simp add: build_graph_def)

text \<open>
  C4. A missing value (\<open>None\<close> or \<open>NaN\<close>) and the empty string give the
  empty token list. A string gives the list of its whitespace-separated
  tokens, each trimmed: the tokens hold the non-whitespace characters of the
  input in their order, and the tokens that the crawler joined with single
  spaces come back as they were, in order and with their duplicates.
\<close>

theorem parse_emojis_splits:
  "parse_emojis PyNone = Inr [] \<and> parse_emojis PyNaN = Inr [] \<and> parse_emojis (PyStr []) = Inr []
   \<and> parse_emojis (PyStr s) = Inr (map str_strip (str_split s))
   \<and> concat (map str_strip (str_split s)) = filter (\<lambda>c. \<not> isspace c) s
   \<and> ((\<forall>t\<in>set ts. t \<noteq> [] \<and> (\<forall>c\<in>set t. \<not> isspace c))
        \<longrightarrow> parse_emojis (PyStr (str_join (py '' '') ts)) = Inr ts)"
proof -
  have sp: "isspace 32" by (simp add: isspace_def)
  have j: "str_split (str_join (py '' '') ts) = ts"
    if "\<forall>t\<in>set ts. t \<noteq> [] \<and> (\<forall>c\<in>set t. \<not> isspace c)"
    using that sp by (intro str_split_join) (auto simp: py_def)
  have e: "str_split [] = []" by (simp add: str_split_Nil)
  have c1: "parse_emojis PyNone = Inr []" "parse_emojis PyNaN = Inr []" by simp_all
  have c2: "parse_emojis (PyStr []) = Inr []" by (simp add: e)
  have c3: "parse_emojis (PyStr s) = Inr (map str_strip (str_split s))" by simp
  have c4: "concat (map str_strip (str_split s)) = filter (\<lambda>c. \<not> isspace c) s"
    by (simp only: map_str_strip_split concat_str_split)
  have c5: "(\<forall>t\<in>set ts. t \<noteq> [] \<and> (\<forall>c\<in>set t. \<not> isspace c))
        \<longrightarrow> parse_emojis (PyStr (str_join (py '' '') ts)) = Inr ts"
  proof
    assume a: "\<forall>t\<in>set ts. t \<noteq> [] \<and> (\<forall>c\<in>set t. \<not> isspace c)"
    have "parse_emojis (PyStr (str_join (py '' '') ts)) = Inr (str_split (str_join (py '' '') ts))"
      by (simp only: parse_emojis_str map_str_strip_split)
    then show "parse_emojis (PyStr (str_join (py '' '') ts)) = Inr ts"
      by (simp only: j [OF a])
  qed
  from c1 c2 c3 c4 c5 show ?thesis by blast
qed

theorem parse_emojis_splits_witness:
  "parse_emojis (PyStr (py '':a: :b: :a:'')) = Inr [py '':a:'', py '':b:'', py '':a:'']
   \<and> concat [py '':a:'', py '':b:'', py '':a:''] = filter (\<lambda>c. \<not> isspace c) (py '':a: :b: :a:'')"
proof -
  have h: "\<forall>t\<in>set [py '':a:'', py '':b:'', py '':a:'']. t \<noteq> [] \<and> (\<forall>c\<in>set t. \<not> isspace c)"
    by (simp add: py_def isspace_def)
  have j: "str_join (py '' '') [py '':a:'', py '':b:'', py '':a:''] = py '':a: :b: :a:''"
    by (simp add: py_def)
  show ?thesis
    using parse_emojis_splits [of "py '':a: :b: :a:''" "[py '':a:'', py '':b:'', py '':a:'']"] h j
    by (simp add: py_def isspace_def)
qed

text \<open>
  C10. On a string, every token of the result is nonempty and free of
  whitespace, a string of whitespace only gives the empty list, and trimming
  changes no token that the split produced.
\<close>

theorem parse_emojis_tokens_clean:
  "parse_emojis (PyStr s) = Inr (str_split s)
   \<and> (\<forall>t\<in>set (str_split s). t \<noteq> [] \<and> (\<forall>c\<in>set t. \<not> isspace c) \<and> str_strip t = t)
   \<and> ((\<forall>c\<in>set s. isspace c) \<longrightarrow> parse_emojis (PyStr s) = Inr [])"
proof -
  have p: "parse_emojis (PyStr s) = Inr (str_split s)"
    by (simp only: parse_emojis_str map_str_strip_split)
  have a: "\<forall>t\<in>set (str_split s). t \<noteq> [] \<and> (\<forall>c\<in>set t. \<not> isspace c) \<and> str_strip t = t"
    using str_split_tokens str_strip_id by blast
  have b: "(\<forall>c\<in>set s. isspace c) \<longrightarrow> parse_emojis (PyStr s) = Inr []"
    using str_split_ws p by simp
  from p a b show ?thesis by blast
qed

theorem parse_emojis_tokens_clean_witness:
  "parse_emojis (PyStr (py ''   '')) = Inr []
   \<and> parse_emojis (PyStr (py '' :a:  :b: '')) = Inr [py '':a:'', py '':b:'']
   \<and> str_strip (py '':a:'') = py '':a:''
   \<and> py '':a:'' \<noteq> []"
proof -
  have ws: "\<forall>c\<in>set (py ''   ''). isspace c" by (simp add: py_def isspace_def)
  have sp: "str_split (py '' :a:  :b: '') = [py '':a:'', py '':b:'']"
    by (simp add: py_def isspace_def str_split.simps)
  from parse_emojis_tokens_clean [of "py ''   ''"] ws
  have e1: "parse_emojis (PyStr (py ''   '')) = Inr []" by blast
  from parse_emojis_tokens_clean [of "py '' :a:  :b: ''"]
  have e2: "parse_emojis (PyStr (py '' :a:  :b: '')) = Inr [py '':a:'', py '':b:'']"
    and a: "\<forall>t\<in>set [py '':a:'', py '':b:'']. t \<noteq> [] \<and> (\<forall>c\<in>set t. \<not> isspace c) \<and> str_strip t = t"
    unfolding sp by blast+
  from a have "str_strip (py '':a:'') = py '':a:''" and "py '':a:'' \<noteq> []" by simp_all
  with e1 e2 show ?thesis by blast
qed

lemma series_apply_returns:
  "\<forall>x\<in>set xs. \<exists>y. f x = Inr y \<Longrightarrow> \<exists>ys. series_apply f xs = Inr ys"
  by (induction xs) (auto split: sum.splits)

lemma parse_emojis_returns: "is_str x \<or> isna x \<Longrightarrow> \<exists>ts. parse_emojis x = Inr ts"
  by (cases x) auto

lemma create_nodes_returns:
  assumes "\<forall>r\<in>set (rows (reviews self)). is_str (emojis r) \<or> isna (emojis r)"
  shows "\<exists>self1 ec. create_nodes self = Inr (self1, ec)"
proof -
  have "\<forall>x\<in>set (map emojis (rows (reviews self))). \<exists>y. parse_emojis x = Inr y"
    using assms parse_emojis_returns by auto
  then obtain ell where "series_apply parse_emojis (map emojis (rows (reviews self))) = Inr ell"
    using series_apply_returns by blast
  then show ?thesis by (simp add: create_nodes_def)
qed

lemma build_graph_returns:
  assumes "\<forall>r\<in>set (rows (reviews self)). is_str (emojis r) \<or> isna (emojis r)"
  shows "\<exists>self2 g. build_graph self = Inr (self2, g)"
proof -
  from create_nodes_returns [OF assms] obtain self1 ec where
    cn: "create_nodes self = Inr (self1, ec)" by blast
  from create_nodes_Inr [OF cn] obtain ell where
    "self1 = self\<lparr>reviews := (reviews self)\<lparr>emoji_list := Some ell\<rparr>\<rparr>" by blast
  then have "emoji_list (reviews self1) = Some ell" by simp
  with cn show ?thesis by (simp add: build_graph_def Let_def)
qed

text \<open>
  C5, as the code has it. \<open>parse_emojis\<close> returns on every string and on a
  missing value, and on a corpus that holds nothing else \<open>create_nodes\<close> and
  \<open>build_graph\<close> return. On an integer \<open>parse_emojis\<close> raises
  \<open>AttributeError\<close>, and a corpus that holds such a record makes
  \<open>create_nodes\<close> and \<open>build_graph\<close> raise it too: the record is not
  skipped.
\<close>

theorem parse_emojis_raises_on_integer:
  "(\<exists>ts. parse_emojis (PyStr s) = Inr ts) \<and> parse_emojis PyNone = Inr [] \<and> parse_emojis PyNaN = Inr []
   \<and> ((\<forall>r\<in>set (rows (reviews self)). is_str (emojis r) \<or> isna (emojis r))
        \<longrightarrow> (\<exists>self1 ec. create_nodes self = Inr (self1, ec))
            \<and> (\<exists>self2 g. build_graph self = Inr (self2, g)))
   \<and> parse_emojis (PyInt n) = Inl AttributeError
   \<and> ((\<exists>r\<in>set (rows (reviews self)). emojis r = PyInt n)
        \<longrightarrow> create_nodes self = Inl AttributeError \<and> build_graph self = Inl AttributeError)"
proof -
  have r: "create_nodes self = Inl AttributeError \<and> build_graph self = Inl AttributeError"
    if "\<exists>r\<in>set (rows (reviews self)). emojis r = PyInt n"
  proof -
    from that obtain r where "r \<in> set (rows (reviews self))" "emojis r = PyInt n" ..
    then have "create_nodes self = Inl AttributeError" by (rule create_nodes_raises)
    then show ?thesis by (simp add: build_graph_raises)
  qed
  have t: "(\<exists>self1 ec. create_nodes self = Inr (self1, ec))
           \<and> (\<exists>self2 g. build_graph self = Inr (self2, g))"
    if "\<forall>r\<in>set (rows (reviews self)). is_str (emojis r) \<or> isna (emojis r)"
    using create_nodes_returns [OF that] build_graph_returns [OF that] by blast
  have b: "(\<exists>ts. parse_emojis (PyStr s) = Inr ts)" "parse_emojis PyNone = Inr []"
    "parse_emojis PyNaN = Inr []" "parse_emojis (PyInt n) = Inl AttributeError" by simp_all
  from r t b show ?thesis by blast
qed

theorem parse_emojis_raises_on_integer_witness:
  "create_nodes (new_GraphBuilder malformed_corpus) = Inl AttributeError
   \<and> build_graph (new_GraphBuilder malformed_corpus) = Inl AttributeError"
proof -
  have "\<exists>r\<in>set (rows (reviews (new_GraphBuilder malformed_corpus))). emojis r = PyInt 5"
    by (simp add: new_GraphBuilder_def malformed_corpus_def corpus_of_def review_of_def)
  then show ?thesis
    using parse_emojis_raises_on_integer
            [where s = "[]" and n = 5 and self = "new_GraphBuilder malformed_corpus"] by blast
qed

text \<open>
  The claim C5 as stated fails: an integer in \<open>emojis\<close> does not give the
  empty token list, and the computation over the corpus stops with the error.
\<close>

theorem parse_emojis_never_raises_counterexample:
  "parse_emojis (PyInt 5) \<noteq> Inr []
   \<and> parse_emojis (PyInt 5) = Inl AttributeError
   \<and> create_nodes (new_GraphBuilder malformed_corpus) = Inl AttributeError"
proof -
  have "create_nodes (new_GraphBuilder malformed_corpus) = Inl AttributeError"
    by (rule create_nodes_raises [of "review_of (PyInt 5)" _ 5])
       (simp_all add: new_GraphBuilder_def malformed_corpus_def corpus_of_def review_of_def)
  then show ?thesis by simp
qed

section \<open>Claims about the counters\<close>

lemma count_review_sort:
  "count_review ec es =
     (if length es < 2 then ec else foldl counter_incr ec (combinations2 (sort (remdups es))))"
  by (simp only: count_review_def sorted_list_of_set_sort_remdups)

lemma scenario_A_tokens:
  "series_apply parse_emojis (map emojis (rows scenario_A))
   = Inr [[py '':smile:'', py '':heart:''], [py '':smile:'', py '':heart:'', py '':smile:''],
          [py '':wow:''], []]"
  by (simp add: scenario_A_def corpus_of_def review_of_def py_def isspace_def str_split.simps
        str_strip_def)

lemma scenario_A_pairs:
  "foldl count_review []
     [[py '':smile:'', py '':heart:''], [py '':smile:'', py '':heart:'', py '':smile:''],
      [py '':wow:''], []]
   = [((py '':heart:'', py '':smile:''), 2)]"
  by (simp add: count_review_sort py_def counter_incr_def counter_get_def)

lemma scenario_A_create_nodes:
  "create_nodes (new_GraphBuilder scenario_A)
   = Inr (\<lparr>reviews = scenario_A\<lparr>emoji_list :=
              Some [[py '':smile:'', py '':heart:''], [py '':smile:'', py '':heart:'', py '':smile:''],
                    [py '':wow:''], []]\<rparr>,
            graph = nx_Graph\<rparr>,
          [((py '':heart:'', py '':smile:''), 2)])"
  by (simp add: create_nodes_def new_GraphBuilder_def scenario_A_tokens scenario_A_pairs
        del: foldl_Cons)

lemma create_nodes_tokens:
  assumes "create_nodes self = Inr (self1, ec)"
  obtains ell where "list_all2 (\<lambda>r es. parse_emojis (emojis r) = Inr es) (rows (reviews self)) ell"
    and "emoji_list (reviews self1) = Some ell" and "ec = foldl count_review [] ell"
    and "rows (reviews self1) = rows (reviews self)" and "graph self1 = graph self"
proof -
  from create_nodes_Inr [OF assms] obtain ell where
    sa: "series_apply parse_emojis (map emojis (rows (reviews self))) = Inr ell"
    and s1: "self1 = self\<lparr>reviews := (reviews self)\<lparr>emoji_list := Some ell\<rparr>\<rparr>"
    and ec: "ec = foldl count_review [] ell" by blast
  from series_apply_Inr [OF sa]
  have "list_all2 (\<lambda>r es. parse_emojis (emojis r) = Inr es) (rows (reviews self)) ell"
    by (simp add: list_all2_map1)
  with s1 ec that show ?thesis by simp
qed

lemma length_filter_tokens:
  "list_all2 (\<lambda>r es. parse_emojis (emojis r) = Inr es) rs ell \<Longrightarrow>
   length (filter P ell)
   = length (filter (\<lambda>r. \<exists>es. parse_emojis (emojis r) = Inr es \<and> P es) rs)"
  by (induction rule: list_all2_induct) auto

lemma sum_count_tokens:
  "list_all2 (\<lambda>r es. parse_emojis (emojis r) = Inr es) rs ell \<Longrightarrow>
   (\<Sum>es\<leftarrow>ell. int (count_list es t))
   = (\<Sum>r\<leftarrow>rs. (case parse_emojis (emojis r) of Inr es \<Rightarrow> int (count_list es t) | Inl e \<Rightarrow> 0))"
  by (induction rule: list_all2_induct) auto

lemma int_count_list_concat:
  "int (count_list (concat xss) x) = (\<Sum>xs\<leftarrow>xss. int (count_list xs x))"
  by (induction xss) auto

text \<open>
  C1. When \<open>create_nodes\<close> returns, the count it holds for two distinct
  tokens, read at their key in canonical order, is the number of reviews whose
  parsed tokens contain both, whatever the number of repeats inside a review.
\<close>

theorem create_nodes_pair_count:
  assumes "create_nodes self = Inr (self1, ec)" and "a \<noteq> b"
  shows "counter_get ec (min a b, max a b)
         = int (length (filter (\<lambda>r. \<exists>es. parse_emojis (emojis r) = Inr es \<and> a \<in> set es \<and> b \<in> set es)
                               (rows (reviews self))))"
proof -
  from assms(1) obtain ell where
    la: "list_all2 (\<lambda>r es. parse_emojis (emojis r) = Inr es) (rows (reviews self)) ell"
    and ec: "ec = foldl count_review [] ell"
    by (rule create_nodes_tokens)
  have lt: "min a b < max a b" using assms(2) by (auto simp: min_def max_def)
  have mem: "(min a b \<in> set es \<and> max a b \<in> set es \<and> min a b < max a b)
             \<longleftrightarrow> (a \<in> set es \<and> b \<in> set es)" for es
    using lt by (auto simp: min_def max_def)
  have "counter_get ec (min a b, max a b)
        = int (length (filter (\<lambda>es. min a b \<in> set es \<and> max a b \<in> set es \<and> min a b < max a b) ell))"
  proof -
    have "counter_get ([] :: ((pystr \<times> pystr) \<times> int) list) (min a b, max a b) = 0"
      by (simp add: counter_get_def)
    then show ?thesis unfolding ec by (simp add: counter_get_foldl_count_review)
  qed
  also have "\<dots> = int (length (filter (\<lambda>es. a \<in> set es \<and> b \<in> set es) ell))"
    by (simp only: mem)
  also have "\<dots> = int (length (filter (\<lambda>r. \<exists>es. parse_emojis (emojis r) = Inr es \<and> a \<in> set es \<and> b \<in> set es)
                               (rows (reviews self))))"
    by (simp only: length_filter_tokens [OF la])
  finally show ?thesis .
qed

theorem create_nodes_pair_count_witness:
  "counter_get [((py '':heart:'', py '':smile:''), 2)] (py '':heart:'', py '':smile:'') = 2
   \<and> length (filter (\<lambda>r. \<exists>es. parse_emojis (emojis r) = Inr es
                              \<and> py '':smile:'' \<in> set es \<and> py '':heart:'' \<in> set es)
                     (rows scenario_A)) = 2"
proof -
  have ne: "py '':smile:'' \<noteq> py '':heart:''" by (simp add: py_def)
  have mn: "min (py '':smile:'') (py '':heart:'') = py '':heart:''"
    and mx: "max (py '':smile:'') (py '':heart:'') = py '':smile:''"
    by (simp_all add: py_def min_def max_def)
  have g: "counter_get [((py '':heart:'', py '':smile:''), 2)] (py '':heart:'', py '':smile:'') = 2"
    by (simp add: counter_get_def)
  have r: "rows (reviews (new_GraphBuilder scenario_A)) = rows scenario_A"
    by (simp add: new_GraphBuilder_def)
  from create_nodes_pair_count [OF scenario_A_create_nodes ne]
  show ?thesis unfolding mn mx r g using g by simp
qed

text \<open>
  C2. The frequency counter that \<open>build_graph\<close> makes from the column
  \<open>emoji_list\<close> maps every token to the number of its occurrences in all
  the parsed token lists, each repeat inside a review counted.
\<close>

theorem emoji_freq_counts:
  assumes "create_nodes self = Inr (self1, ec)" and "emoji_list (reviews self1) = Some ell"
  shows "list_all2 (\<lambda>r es. parse_emojis (emojis r) = Inr es) (rows (reviews self)) ell
         \<and> counter_get (emoji_freq ell) t = (\<Sum>es\<leftarrow>ell. int (count_list es t))
         \<and> counter_get (emoji_freq ell) t
           = (\<Sum>r\<leftarrow>rows (reviews self).
                (case parse_emojis (emojis r) of Inr es \<Rightarrow> int (count_list es t) | Inl e \<Rightarrow> 0))"
proof -
  from assms(1) obtain ell' where
    la: "list_all2 (\<lambda>r es. parse_emojis (emojis r) = Inr es) (rows (reviews self)) ell'"
    and el: "emoji_list (reviews self1) = Some ell'"
    by (rule create_nodes_tokens)
  from el assms(2) have "ell' = ell" by simp
  with la have la': "list_all2 (\<lambda>r es. parse_emojis (emojis r) = Inr es) (rows (reviews self)) ell"
    by simp
  have c: "counter_get (emoji_freq ell) t = (\<Sum>es\<leftarrow>ell. int (count_list es t))"
    by (simp only: emoji_freq_def counter_get_Counter int_count_list_concat)
  from la' c sum_count_tokens [OF la', of t] show ?thesis by simp
qed

theorem emoji_freq_counts_witness:
  "counter_get (emoji_freq [[py '':smile:'', py '':heart:''],
                            [py '':smile:'', py '':heart:'', py '':smile:''], [py '':wow:''], []])
               (py '':smile:'') = 3"
proof -
  have el: "emoji_list (reviews \<lparr>reviews = scenario_A\<lparr>emoji_list :=
              Some [[py '':smile:'', py '':heart:''], [py '':smile:'', py '':heart:'', py '':smile:''],
                    [py '':wow:''], []]\<rparr>, graph = nx_Graph\<rparr>)
            = Some [[py '':smile:'', py '':heart:''], [py '':smile:'', py '':heart:'', py '':smile:''],
                    [py '':wow:''], []]"
    by simp
  from emoji_freq_counts [OF scenario_A_create_nodes el, of "py '':smile:''"]
  show ?thesis by (simp add: py_def)
qed

section \<open>Properties of the graph operations\<close>

lemma adj_None_iff:
  "dom (g_adj g) = dom (g_node g) \<Longrightarrow> (g_adj g x = None) = (g_node g x = None)"
  by (metis domIff)

lemma g_node_touch_node:
  "g_node (touch_node u g) n = (if n = u \<and> g_node g u = None then Some None else g_node g n)"
  by (simp add: touch_node_def)

lemma g_node_set_adj: "g_node (set_adj u v w g) = g_node g"
  by (simp add: set_adj_def split: option.splits)

lemma g_node_add_edge:
  "g_node (add_edge u v w g) n
   = (if n = u \<or> n = v then Some (case g_node g n of None \<Rightarrow> None | Some a \<Rightarrow> a) else g_node g n)"
  by (auto simp: add_edge_def g_node_set_adj g_node_touch_node split: option.splits)

lemma dom_touch_node:
  "dom (g_adj g) = dom (g_node g) \<Longrightarrow> dom (g_adj (touch_node u g)) = dom (g_node (touch_node u g))"
  by (auto simp: touch_node_def)

lemma dom_set_adj:
  "dom (g_adj g) = dom (g_node g) \<Longrightarrow> dom (g_adj (set_adj u v w g)) = dom (g_node (set_adj u v w g))"
  by (auto simp: set_adj_def split: option.splits)

lemma dom_add_edge:
  "dom (g_adj g) = dom (g_node g) \<Longrightarrow> dom (g_adj (add_edge u v w g)) = dom (g_node (add_edge u v w g))"
  unfolding add_edge_def by (intro dom_set_adj dom_touch_node)

lemma nbrs_touch_node:
  "dom (g_adj g) = dom (g_node g) \<Longrightarrow> nbrs (touch_node u g) n = nbrs g n"
  by (auto simp: touch_node_def nbrs_def adj_None_iff split: option.splits)

lemma g_adj_touch_node_self: "g_adj (touch_node u g) u \<noteq> None \<or> g_node g u \<noteq> None"
  by (simp add: touch_node_def)

lemma nbrs_set_adj:
  "g_adj g u \<noteq> None \<Longrightarrow>
   nbrs (set_adj u v w g) n = (if n = u then (nbrs g u)(v \<mapsto> w) else nbrs g n)"
  by (auto simp: set_adj_def nbrs_def split: option.splits)

lemma adj_set_adj_mono: "g_adj g x \<noteq> None \<Longrightarrow> g_adj (set_adj u v w g) x \<noteq> None"
  by (auto simp: set_adj_def split: option.splits)

lemma adj_touched:
  assumes "dom (g_adj g) = dom (g_node g)"
  shows "g_adj (touch_node v (touch_node u g)) u \<noteq> None"
    and "g_adj (touch_node v (touch_node u g)) v \<noteq> None"
proof -
  have i1: "dom (g_adj (touch_node u g)) = dom (g_node (touch_node u g))"
    using assms by (rule dom_touch_node)
  have i2: "dom (g_adj (touch_node v (touch_node u g))) = dom (g_node (touch_node v (touch_node u g)))"
    using i1 by (rule dom_touch_node)
  have "g_node (touch_node v (touch_node u g)) u \<noteq> None"
    by (simp add: g_node_touch_node)
  then show "g_adj (touch_node v (touch_node u g)) u \<noteq> None"
    by (simp add: adj_None_iff [OF i2])
  have "g_node (touch_node v (touch_node u g)) v \<noteq> None"
    by (simp add: g_node_touch_node)
  then show "g_adj (touch_node v (touch_node u g)) v \<noteq> None"
    by (simp add: adj_None_iff [OF i2])
qed

lemma nbrs_add_edge:
  assumes "dom (g_adj g) = dom (g_node g)"
  shows "nbrs (add_edge u v w g) n x
         = (if (n = u \<and> x = v) \<or> (n = v \<and> x = u) then Some w else nbrs g n x)"
proof -
  let ?g2 = "touch_node v (touch_node u g)"
  have i1: "dom (g_adj (touch_node u g)) = dom (g_node (touch_node u g))"
    using assms by (rule dom_touch_node)
  have n2: "nbrs ?g2 = nbrs g"
    by (rule ext) (simp add: nbrs_touch_node [OF i1] nbrs_touch_node [OF assms])
  have a: "g_adj ?g2 u \<noteq> None" and b: "g_adj ?g2 v \<noteq> None"
    using adj_touched [OF assms] by auto
  have b': "g_adj (set_adj u v w ?g2) v \<noteq> None"
    using b by (rule adj_set_adj_mono)
  have s2: "nbrs (set_adj u v w ?g2) m = (if m = u then (nbrs g u)(v \<mapsto> w) else nbrs g m)" for m
    by (simp only: nbrs_set_adj [OF a] n2)
  have s1: "nbrs (add_edge u v w g) n
            = (if n = v then (nbrs (set_adj u v w ?g2) v)(u \<mapsto> w) else nbrs (set_adj u v w ?g2) n)"
    unfolding add_edge_def by (rule nbrs_set_adj [OF b'])
  show ?thesis by (simp add: s1 s2)
qed

lemma g_adj_nbrs:
  "dom (g_adj g) = dom (g_node g) \<Longrightarrow>
   g_adj g n = (if g_node g n = None then None else Some (nbrs g n))"
  by (auto simp: nbrs_def adj_None_iff split: option.splits)

lemma nxgraph_eqI:
  assumes "dom (g_adj g) = dom (g_node g)" and "dom (g_adj g') = dom (g_node g')"
    and "g_node g = g_node g'" and "nbrs g = nbrs g'"
  shows "g = (g' :: nxgraph)"
proof -
  have "g_adj g = g_adj g'"
    by (rule ext) (simp add: g_adj_nbrs [OF assms(1)] g_adj_nbrs [OF assms(2)] assms(3,4))
  with assms(3) show ?thesis by simp
qed

subsection \<open>add_edges\<close>

lemma add_edges_Nil: "add_edges [] g = g"
  by (simp add: add_edges_def)

lemma add_edges_Cons: "add_edges (((a, b), w) # ec) g = add_edges ec (add_edge a b w g)"
  by (simp add: add_edges_def)

lemma endpoints_Nil: "endpoints [] = {}"
  by (simp add: endpoints_def)

lemma endpoints_Cons: "endpoints (((a, b), w) # ec) = insert a (insert b (endpoints ec))"
  by (auto simp: endpoints_def)

lemma dom_add_edges:
  "dom (g_adj g) = dom (g_node g) \<Longrightarrow> dom (g_adj (add_edges ec g)) = dom (g_node (add_edges ec g))"
proof (induction ec arbitrary: g)
  case Nil
  then show ?case by (simp add: add_edges_Nil)
next
  case (Cons x ec)
  obtain a b w where x: "x = ((a, b), w)" by (cases x) auto
  show ?case unfolding x add_edges_Cons
    by (rule Cons.IH) (rule dom_add_edge [OF Cons.prems])
qed

lemma g_node_add_edges:
  "g_node (add_edges ec g) n
   = (if n \<in> endpoints ec then Some (case g_node g n of None \<Rightarrow> None | Some a \<Rightarrow> a) else g_node g n)"
proof (induction ec arbitrary: g)
  case Nil
  then show ?case by (simp add: add_edges_Nil endpoints_Nil)
next
  case (Cons x ec)
  obtain a b w where x: "x = ((a, b), w)" by (cases x) auto
  show ?case unfolding x add_edges_Cons
    by (simp add: Cons.IH g_node_add_edge endpoints_Cons split: option.splits)
qed

lemma nbrs_add_edges:
  assumes "dom (g_adj g) = dom (g_node g)"
    and "\<forall>((a, b), w)\<in>set ec. a < b" and "distinct (map fst ec)"
  shows "nbrs (add_edges ec g) n x
         = (case map_of ec (n, x) of
              Some w \<Rightarrow> Some w
            | None \<Rightarrow> (case map_of ec (x, n) of Some w \<Rightarrow> Some w | None \<Rightarrow> nbrs g n x))"
  using assms
proof (induction ec arbitrary: g)
  case Nil
  then show ?case by (simp add: add_edges_Nil)
next
  case (Cons y ec)
  obtain a b w where y: "y = ((a, b), w)" by (cases y) auto
  have ab: "a < b" using Cons.prems(2) y by simp
  have k1: "map_of ec (a, b) = None"
    using Cons.prems(3) y by (simp add: map_of_eq_None_iff)
  have k2: "map_of ec (b, a) = None"
  proof (rule ccontr)
    assume "map_of ec (b, a) \<noteq> None"
    then obtain w' where "((b, a), w') \<in> set ec" by (auto dest: map_of_SomeD)
    with Cons.prems(2) have "b < a" by auto
    with ab show False by simp
  qed
  have inv: "dom (g_adj (add_edge a b w g)) = dom (g_node (add_edge a b w g))"
    by (rule dom_add_edge [OF Cons.prems(1)])
  have c: "\<forall>((a, b), w)\<in>set ec. a < b" and d: "distinct (map fst ec)"
    using Cons.prems(2,3) by auto
  show ?case
    unfolding y add_edges_Cons
    using ab k1 k2
    by (auto simp: Cons.IH [OF inv c d] nbrs_add_edge [OF Cons.prems(1)] split: option.splits)
qed

subsection \<open>set_node_attributes\<close>

lemma set_node_attributes_fold:
  "g_adj (foldl (\<lambda>g (n, v). (case g_node g n of
                            None \<Rightarrow> g
                          | Some a \<Rightarrow> g\<lparr>g_node := (g_node g)(n \<mapsto> Some (counter_get vals n))\<rparr>)) G xs)
   = g_adj G
   \<and> g_node (foldl (\<lambda>g (n, v). (case g_node g n of
                            None \<Rightarrow> g
                          | Some a \<Rightarrow> g\<lparr>g_node := (g_node g)(n \<mapsto> Some (counter_get vals n))\<rparr>)) G xs) m
   = (if m \<in> fst ` set xs \<and> g_node G m \<noteq> None then Some (Some (counter_get vals m)) else g_node G m)"
proof (induction xs arbitrary: G)
  case Nil
  show ?case by simp
next
  case (Cons x xs)
  obtain n v where x: "x = (n, v)" by (cases x) auto
  show ?case unfolding x
    by (cases "g_node G n") (auto simp: Cons.IH)
qed

lemma g_adj_set_node_attributes: "g_adj (set_node_attributes G vals) = g_adj G"
  unfolding set_node_attributes_def using set_node_attributes_fold by blast

lemma g_node_set_node_attributes:
  "g_node (set_node_attributes G vals) m
   = (if m \<in> fst ` set vals \<and> g_node G m \<noteq> None then Some (Some (counter_get vals m)) else g_node G m)"
  unfolding set_node_attributes_def using set_node_attributes_fold by blast

lemma nbrs_set_node_attributes: "nbrs (set_node_attributes G vals) = nbrs G"
  by (rule ext) (simp add: nbrs_def g_adj_set_node_attributes)

lemma dom_set_node_attributes:
  "dom (g_node (set_node_attributes G vals)) = dom (g_node G)"
  by (auto simp: g_node_set_node_attributes split: if_splits)

section \<open>The graph that build_graph assembles\<close>

lemma create_nodes_keys:
  assumes "create_nodes self = Inr (self1, ec)" and "emoji_list (reviews self1) = Some ell"
  shows "fst ` set ec = {(a, b). \<exists>es\<in>set ell. a \<in> set es \<and> b \<in> set es \<and> a < b}"
    and "distinct (map fst ec)"
proof -
  from assms(1) obtain ell' where el: "emoji_list (reviews self1) = Some ell'"
    and ec: "ec = foldl count_review [] ell'"
    by (rule create_nodes_tokens)
  from el assms(2) have e: "ell' = ell" by simp
  show "fst ` set ec = {(a, b). \<exists>es\<in>set ell. a \<in> set es \<and> b \<in> set es \<and> a < b}"
    unfolding ec e by (simp add: keys_foldl_count_review)
  show "distinct (map fst ec)"
    unfolding ec by (rule distinct_foldl_count_review) simp
qed

lemma create_nodes_canonical:
  assumes "create_nodes self = Inr (self1, ec)"
  shows "\<forall>((a, b), w)\<in>set ec. a < b" and "distinct (map fst ec)"
proof -
  from assms obtain ell where el: "emoji_list (reviews self1) = Some ell"
    by (rule create_nodes_tokens)
  note k = create_nodes_keys [OF assms el]
  show "distinct (map fst ec)" by (rule k(2))
  show "\<forall>((a, b), w)\<in>set ec. a < b"
  proof (clarify)
    fix a b w assume "((a, b), w) \<in> set ec"
    then have "(a, b) \<in> fst ` set ec" by force
    then show "a < b" unfolding k(1) by auto
  qed
qed

lemma endpoints_iff:
  "t \<in> endpoints ec \<longleftrightarrow> (\<exists>u. (t, u) \<in> fst ` set ec \<or> (u, t) \<in> fst ` set ec)"
proof
  assume "t \<in> endpoints ec"
  then consider "t \<in> fst ` fst ` set ec" | "t \<in> snd ` fst ` set ec"
    unfolding endpoints_def by blast
  then show "\<exists>u. (t, u) \<in> fst ` set ec \<or> (u, t) \<in> fst ` set ec"
  proof cases
    case 1
    then obtain p where "p \<in> fst ` set ec" "t = fst p" by blast
    then have "(t, snd p) \<in> fst ` set ec" by simp
    then show ?thesis by blast
  next
    case 2
    then obtain p where "p \<in> fst ` set ec" "t = snd p" by blast
    then have "(fst p, t) \<in> fst ` set ec" by simp
    then show ?thesis by blast
  qed
next
  assume "\<exists>u. (t, u) \<in> fst ` set ec \<or> (u, t) \<in> fst ` set ec"
  then obtain u where "(t, u) \<in> fst ` set ec \<or> (u, t) \<in> fst ` set ec" ..
  then show "t \<in> endpoints ec"
  proof
    assume "(t, u) \<in> fst ` set ec"
    then have "fst (t, u) \<in> fst ` fst ` set ec" by (rule imageI)
    then show ?thesis by (simp add: endpoints_def)
  next
    assume "(u, t) \<in> fst ` set ec"
    then have "snd (u, t) \<in> snd ` fst ` set ec" by (rule imageI)
    then show ?thesis by (simp add: endpoints_def)
  qed
qed

lemma endpoints_tokens:
  assumes "create_nodes self = Inr (self1, ec)" and "emoji_list (reviews self1) = Some ell"
  shows "endpoints ec = {t. \<exists>es\<in>set ell. t \<in> set es \<and> (\<exists>u\<in>set es. u \<noteq> t)}"
proof -
  have k: "(a, b) \<in> fst ` set ec \<longleftrightarrow> (\<exists>es\<in>set ell. a \<in> set es \<and> b \<in> set es \<and> a < b)" for a b
    unfolding create_nodes_keys(1) [OF assms] by simp
  have "t \<in> endpoints ec \<longleftrightarrow> (\<exists>es\<in>set ell. t \<in> set es \<and> (\<exists>u\<in>set es. u \<noteq> t))" for t
  proof
    assume "t \<in> endpoints ec"
    then obtain u where "(t, u) \<in> fst ` set ec \<or> (u, t) \<in> fst ` set ec"
      unfolding endpoints_iff ..
    then obtain es where es: "es \<in> set ell" "t \<in> set es" "u \<in> set es" "t < u \<or> u < t"
      unfolding k by blast
    from es(4) have "u \<noteq> t" by auto
    with es(1-3) show "\<exists>es\<in>set ell. t \<in> set es \<and> (\<exists>u\<in>set es. u \<noteq> t)" by blast
  next
    assume "\<exists>es\<in>set ell. t \<in> set es \<and> (\<exists>u\<in>set es. u \<noteq> t)"
    then obtain es u where es: "es \<in> set ell" "t \<in> set es" "u \<in> set es" "u \<noteq> t" by blast
    from es(4) have "t < u \<or> u < t" by (auto simp: neq_iff)
    with es(1-3) have "(t, u) \<in> fst ` set ec \<or> (u, t) \<in> fst ` set ec"
      unfolding k by blast
    then show "t \<in> endpoints ec" unfolding endpoints_iff ..
  qed
  then show ?thesis by blast
qed

lemma keys_emoji_freq: "fst ` set (emoji_freq ell) = \<Union> (set ` set ell)"
  by (simp add: emoji_freq_def keys_Counter)

lemma endpoints_subset_freq:
  assumes "create_nodes self = Inr (self1, ec)" and "emoji_list (reviews self1) = Some ell"
  shows "endpoints ec \<subseteq> fst ` set (emoji_freq ell)"
  unfolding endpoints_tokens [OF assms] keys_emoji_freq by auto

lemma finite_endpoints: "finite (endpoints ec)"
  by (simp add: endpoints_def)

lemma build_graph_Inr:
  assumes "create_nodes self = Inr (self1, ec)" and "emoji_list (reviews self1) = Some ell"
  shows "build_graph self
         = Inr (self1\<lparr>graph := set_node_attributes (add_edges ec (graph self1)) (emoji_freq ell)\<rparr>,
                set_node_attributes (add_edges ec (graph self1)) (emoji_freq ell))"
  using assms by (simp add: build_graph_def Let_def)

lemma build_graph_fresh:
  assumes "create_nodes (new_GraphBuilder df) = Inr (self1, ec)"
    and "emoji_list (reviews self1) = Some ell"
    and "build_graph (new_GraphBuilder df) = Inr (self2, g)"
  shows "g = set_node_attributes (add_edges ec nx_Graph) (emoji_freq ell)"
    and "self2 = self1\<lparr>graph := g\<rparr>"
proof -
  from assms(1) have gr: "graph self1 = nx_Graph"
    by (rule create_nodes_tokens) (simp add: new_GraphBuilder_def)
  from build_graph_Inr [OF assms(1,2)] assms(3) gr
  show "g = set_node_attributes (add_edges ec nx_Graph) (emoji_freq ell)"
    and "self2 = self1\<lparr>graph := g\<rparr>" by simp_all
qed

lemma dom_nx_Graph: "dom (g_adj nx_Graph) = dom (g_node nx_Graph)"
  by (simp add: nx_Graph_def)

lemma nbrs_nx_Graph: "nbrs nx_Graph n x = None"
  by (simp add: nx_Graph_def nbrs_def)

text \<open>The graph assembled from a pair counter with canonical keys, in closed form.\<close>

lemma assembled_node:
  assumes "endpoints ec \<subseteq> fst ` set ef"
  shows "g_node (set_node_attributes (add_edges ec nx_Graph) ef) n
         = (if n \<in> endpoints ec then Some (Some (counter_get ef n)) else None)"
  using assms by (auto simp: g_node_set_node_attributes g_node_add_edges nx_Graph_def)

lemma assembled_dom:
  "dom (g_adj (set_node_attributes (add_edges ec nx_Graph) ef))
   = dom (g_node (set_node_attributes (add_edges ec nx_Graph) ef))"
  by (simp add: g_adj_set_node_attributes dom_set_node_attributes dom_add_edges [OF dom_nx_Graph])

lemma assembled_nbrs:
  assumes "\<forall>((a, b), w)\<in>set ec. a < b" and "distinct (map fst ec)"
  shows "nbrs (set_node_attributes (add_edges ec nx_Graph) ef) n x
         = (case map_of ec (n, x) of Some w \<Rightarrow> Some w | None \<Rightarrow> map_of ec (x, n))"
  by (simp add: nbrs_set_node_attributes nbrs_add_edges [OF dom_nx_Graph assms] nbrs_nx_Graph
        split: option.splits)

lemma assembled_adj:
  "g_adj (set_node_attributes (add_edges ec nx_Graph) ef) n
   = (if n \<in> endpoints ec then Some (nbrs (set_node_attributes (add_edges ec nx_Graph) ef) n) else None)"
proof -
  have "g_node (add_edges ec nx_Graph) n = None \<longleftrightarrow> n \<notin> endpoints ec"
    by (simp add: g_node_add_edges nx_Graph_def)
  then have "g_node (set_node_attributes (add_edges ec nx_Graph) ef) n = None \<longleftrightarrow> n \<notin> endpoints ec"
    by (simp add: g_node_set_node_attributes)
  then show ?thesis by (simp add: g_adj_nbrs [OF assembled_dom])
qed

section \<open>Claims about the graph\<close>

lemma scenario_B_create_nodes:
  "create_nodes (new_GraphBuilder scenario_B)
   = Inr (\<lparr>reviews = scenario_B\<lparr>emoji_list := Some [[py '':a:'', py '':a:'', py '':a:'']]\<rparr>,
            graph = nx_Graph\<rparr>, [])"
proof -
  have t: "series_apply parse_emojis (map emojis (rows scenario_B))
           = Inr [[py '':a:'', py '':a:'', py '':a:'']]"
    by (simp add: scenario_B_def corpus_of_def review_of_def py_def isspace_def str_split.simps
          str_strip_def)
  have p: "foldl count_review [] [[py '':a:'', py '':a:'', py '':a:'']]
           = ([] :: ((pystr \<times> pystr) \<times> int) list)"
    by (simp add: count_review_sort py_def)
  show ?thesis
    by (simp add: create_nodes_def new_GraphBuilder_def t p del: foldl_Cons)
qed

lemma count_review_single:
  assumes "set es = {t}"
  shows "count_review ec es = ec"
proof -
  have "sorted_list_of_set (set es) = [t]" unfolding assms by simp
  then show ?thesis by (simp add: count_review_def)
qed

lemma no_self_key:
  assumes "\<forall>((a, b), w)\<in>set ec. a < (b :: pystr)"
  shows "map_of ec (u, u) = None"
proof (rule ccontr)
  assume "map_of ec (u, u) \<noteq> None"
  then obtain w where "((u, u), w) \<in> set ec" by (auto dest: map_of_SomeD)
  with assms have "u < u" by auto
  then show False by simp
qed

text \<open>
  C7. Every key of the pair counter that \<open>create_nodes\<close> returns is a pair
  of two distinct tokens in ascending order, no key occurs twice and none
  occurs in the other order; the graph that a new builder assembles has no
  self-loop.
\<close>

theorem pair_keys_canonical:
  assumes "create_nodes self = Inr (self1, ec)"
  shows "(\<forall>((a, b), n)\<in>set ec. a < b) \<and> distinct (map fst ec)
         \<and> (\<forall>a b. (a, b) \<in> fst ` set ec \<longrightarrow> a \<noteq> b \<and> (b, a) \<notin> fst ` set ec)
         \<and> (\<forall>self2 g u nb. graph self = nx_Graph \<longrightarrow> build_graph self = Inr (self2, g)
               \<longrightarrow> g_adj g u = Some nb \<longrightarrow> nb u = None)"
proof -
  note can = create_nodes_canonical [OF assms]
  have ord: "a < b" if "(a, b) \<in> fst ` set ec" for a b
  proof -
    from that obtain n where "((a, b), n) \<in> set ec" by force
    with can(1) show ?thesis by auto
  qed
  have c3: "\<forall>a b. (a, b) \<in> fst ` set ec \<longrightarrow> a \<noteq> b \<and> (b, a) \<notin> fst ` set ec"
  proof (intro allI impI conjI)
    fix a b assume k: "(a, b) \<in> fst ` set ec"
    from ord [OF k] show "a \<noteq> b" by simp
    show "(b, a) \<notin> fst ` set ec"
    proof
      assume "(b, a) \<in> fst ` set ec"
      from ord [OF this] ord [OF k] show False by simp
    qed
  qed
  have c4: "nb u = None"
    if gr: "graph self = nx_Graph" and bg: "build_graph self = Inr (self2, g)"
      and adj: "g_adj g u = Some nb" for self2 g u nb
  proof -
    from assms obtain ell where el: "emoji_list (reviews self1) = Some ell"
      and g1: "graph self1 = graph self"
      by (rule create_nodes_tokens)
    from build_graph_Inr [OF assms el] bg g1 gr
    have g: "g = set_node_attributes (add_edges ec nx_Graph) (emoji_freq ell)" by simp
    from adj have "nb = nbrs g u" by (simp add: nbrs_def)
    then have "nb u = nbrs g u u" by simp
    also have "\<dots> = None"
      unfolding g by (simp add: assembled_nbrs [OF can] no_self_key [OF can(1)])
    finally show ?thesis .
  qed
  from can c3 c4 show ?thesis by blast
qed

theorem pair_keys_canonical_witness:
  "py '':heart:'' < py '':smile:''
   \<and> (py '':smile:'', py '':heart:'') \<notin> fst ` set [((py '':heart:'', py '':smile:''), 2 :: int)]"
proof -
  have k: "(py '':heart:'', py '':smile:'') \<in> fst ` set [((py '':heart:'', py '':smile:''), 2 :: int)]"
    by simp
  from pair_keys_canonical [OF scenario_A_create_nodes] k
  show ?thesis by simp
qed

text \<open>
  C3. The nodes of the graph that a new builder returns are the tokens that
  occur in a key of the pair counter, and each carries its frequency. A token
  that shares no review with another token is no node of the graph, whatever
  its frequency; a review that repeats one token adds no pair.
\<close>

theorem build_graph_node_set:
  assumes "create_nodes (new_GraphBuilder df) = Inr (self1, ec)"
    and "emoji_list (reviews self1) = Some ell"
    and "build_graph (new_GraphBuilder df) = Inr (self2, g)"
  shows "dom (g_node g) = fst ` fst ` set ec \<union> snd ` fst ` set ec
         \<and> g_node g t = (if t \<in> fst ` fst ` set ec \<union> snd ` fst ` set ec
                          then Some (Some (counter_get (emoji_freq ell) t)) else None)
         \<and> ((\<forall>es\<in>set ell. t \<in> set es \<longrightarrow> set es = {t}) \<longrightarrow> g_node g t = None \<and> g_adj g t = None)
         \<and> (\<forall>es ec0. set es = {t} \<longrightarrow> count_review ec0 es = ec0)"
proof -
  note g = build_graph_fresh(1) [OF assms]
  note sub = endpoints_subset_freq [OF assms(1,2)]
  have n: "g_node g x = (if x \<in> endpoints ec then Some (Some (counter_get (emoji_freq ell) x)) else None)"
    for x unfolding g by (rule assembled_node [OF sub])
  have d: "dom (g_node g) = endpoints ec"
    by (auto simp: n split: if_splits)
  have a: "g_adj g x = None" if "x \<notin> endpoints ec" for x
    unfolding g using that by (simp add: assembled_adj)
  have lone: "t \<notin> endpoints ec" if "\<forall>es\<in>set ell. t \<in> set es \<longrightarrow> set es = {t}"
  proof
    assume "t \<in> endpoints ec"
    then obtain es u where "es \<in> set ell" "t \<in> set es" "u \<in> set es" "u \<noteq> t"
      unfolding endpoints_tokens [OF assms(1,2)] by blast
    with that show False by auto
  qed
  have c3: "(\<forall>es\<in>set ell. t \<in> set es \<longrightarrow> set es = {t}) \<longrightarrow> g_node g t = None \<and> g_adj g t = None"
    using lone n a by simp
  have c4: "\<forall>es ec0. set es = {t} \<longrightarrow> count_review ec0 es = (ec0 :: (pystr \<times> pystr) counter)"
    using count_review_single by blast
  from d n [of t] c3 c4 show ?thesis unfolding endpoints_def by blast
qed

theorem build_graph_node_set_witness:
  "count_review ([] :: (pystr \<times> pystr) counter) [py '':a:'', py '':a:'', py '':a:''] = []
   \<and> counter_get (emoji_freq [[py '':a:'', py '':a:'', py '':a:'']]) (py '':a:'') = 3
   \<and> g_node (set_node_attributes (add_edges [] nx_Graph)
                (emoji_freq [[py '':a:'', py '':a:'', py '':a:'']])) (py '':a:'') = None"
proof -
  let ?ell = "[[py '':a:'', py '':a:'', py '':a:'']]"
  let ?s1 = "\<lparr>reviews = scenario_B\<lparr>emoji_list := Some ?ell\<rparr>, graph = nx_Graph\<rparr>"
  let ?g = "set_node_attributes (add_edges [] nx_Graph) (emoji_freq ?ell)"
  have el: "emoji_list (reviews ?s1) = Some ?ell" by simp
  have bg: "build_graph (new_GraphBuilder scenario_B) = Inr (?s1\<lparr>graph := ?g\<rparr>, ?g)"
    using build_graph_Inr [OF scenario_B_create_nodes el] by simp
  have f: "counter_get (emoji_freq ?ell) (py '':a:'') = 3"
    by (simp add: emoji_freq_def counter_get_Counter)
  have s: "set [py '':a:'', py '':a:'', py '':a:''] = {py '':a:''}" by simp
  from build_graph_node_set [OF scenario_B_create_nodes el bg, of "py '':a:''"] f s
  show ?thesis by simp
qed

lemma scenario_A_build_graph:
  "build_graph (new_GraphBuilder scenario_A)
   = Inr (\<lparr>reviews = scenario_A\<lparr>emoji_list :=
              Some [[py '':smile:'', py '':heart:''], [py '':smile:'', py '':heart:'', py '':smile:''],
                    [py '':wow:''], []]\<rparr>,
            graph = set_node_attributes (add_edges [((py '':heart:'', py '':smile:''), 2)] nx_Graph)
              (emoji_freq [[py '':smile:'', py '':heart:''],
                           [py '':smile:'', py '':heart:'', py '':smile:''], [py '':wow:''], []])\<rparr>,
          set_node_attributes (add_edges [((py '':heart:'', py '':smile:''), 2)] nx_Graph)
              (emoji_freq [[py '':smile:'', py '':heart:''],
                           [py '':smile:'', py '':heart:'', py '':smile:''], [py '':wow:''], []]))"
  using build_graph_Inr [OF scenario_A_create_nodes] by simp

lemma assembled_nbrs_dom:
  assumes "\<forall>((a, b), w)\<in>set ec. a < b" and "distinct (map fst ec)"
  shows "dom (nbrs (set_node_attributes (add_edges ec nx_Graph) ef) n) \<subseteq> endpoints ec"
proof
  fix x assume "x \<in> dom (nbrs (set_node_attributes (add_edges ec nx_Graph) ef) n)"
  then have "map_of ec (n, x) \<noteq> None \<or> map_of ec (x, n) \<noteq> None"
    by (auto simp: assembled_nbrs [OF assms] split: option.splits)
  then have "(n, x) \<in> fst ` set ec \<or> (x, n) \<in> fst ` set ec"
    by (simp add: map_of_eq_None_iff)
  then show "x \<in> endpoints ec" unfolding endpoints_iff by blast
qed

lemma assembled_nbrs_nonempty:
  assumes "\<forall>((a, b), w)\<in>set ec. a < b" and "distinct (map fst ec)" and "n \<in> endpoints ec"
  shows "dom (nbrs (set_node_attributes (add_edges ec nx_Graph) ef) n) \<noteq> {}"
proof -
  from assms(3) obtain u where "(n, u) \<in> fst ` set ec \<or> (u, n) \<in> fst ` set ec"
    unfolding endpoints_iff ..
  then have "map_of ec (n, u) \<noteq> None \<or> map_of ec (u, n) \<noteq> None"
    by (simp add: map_of_eq_None_iff)
  then have "nbrs (set_node_attributes (add_edges ec nx_Graph) ef) n u \<noteq> None"
    by (auto simp: assembled_nbrs [OF assms(1,2)] split: option.splits)
  then show ?thesis by auto
qed

lemma assembled_degree:
  assumes "\<forall>((a, b), w)\<in>set ec. a < b" and "distinct (map fst ec)" and "n \<in> endpoints ec"
  shows "1 \<le> degree (set_node_attributes (add_edges ec nx_Graph) ef) n"
proof -
  let ?g = "set_node_attributes (add_edges ec nx_Graph) ef"
  have a: "g_adj ?g n = Some (nbrs ?g n)" using assms(3) by (simp add: assembled_adj)
  have "finite (dom (nbrs ?g n))"
    by (rule finite_subset [OF assembled_nbrs_dom [OF assms(1,2)] finite_endpoints])
  moreover have "dom (nbrs ?g n) \<noteq> {}" by (rule assembled_nbrs_nonempty [OF assms])
  ultimately have "0 < card (dom (nbrs ?g n))" by (simp add: card_gt_0_iff)
  then show ?thesis by (simp add: degree_def a)
qed

lemma pair_count_bound:
  assumes "create_nodes self = Inr (self1, ec)"
  shows "counter_get ec k \<le> int (length (rows (reviews self)))"
proof -
  from assms obtain ell where
    la: "list_all2 (\<lambda>r es. parse_emojis (emojis r) = Inr es) (rows (reviews self)) ell"
    and ec: "ec = foldl count_review [] ell"
    by (rule create_nodes_tokens)
  obtain a b where k: "k = (a, b)" by (cases k) auto
  have z: "counter_get ([] :: ((pystr \<times> pystr) \<times> int) list) (a, b) = 0"
    by (simp add: counter_get_def)
  have "counter_get ec k = int (length (filter (\<lambda>es. a \<in> set es \<and> b \<in> set es \<and> a < b) ell))"
    unfolding ec k by (simp add: counter_get_foldl_count_review z)
  also have "\<dots> \<le> int (length ell)" by simp
  also have "length ell = length (rows (reviews self))"
    using la by (simp add: list_all2_lengthD)
  finally show ?thesis .
qed

text \<open>
  C8. In the graph that a new builder returns every node has degree at least
  1, the nodes are among the keys of the frequency counter, properly so when
  some counted token shares no review with another token, and no pair count
  exceeds the number of reviews.
\<close>

theorem build_graph_degree:
  assumes "create_nodes (new_GraphBuilder df) = Inr (self1, ec)"
    and "emoji_list (reviews self1) = Some ell"
    and "build_graph (new_GraphBuilder df) = Inr (self2, g)"
  shows "(\<forall>n\<in>dom (g_node g). 1 \<le> degree g n)
         \<and> dom (g_node g) \<subseteq> fst ` set (emoji_freq ell)
         \<and> ((\<exists>t\<in>fst ` set (emoji_freq ell). \<forall>es\<in>set ell. t \<in> set es \<longrightarrow> set es = {t})
              \<longrightarrow> dom (g_node g) \<subset> fst ` set (emoji_freq ell))
         \<and> (\<forall>k. counter_get ec k \<le> int (length (rows df)))
         \<and> (\<forall>(k, n)\<in>set ec. n \<le> int (length (rows df)))"
proof -
  note g = build_graph_fresh(1) [OF assms]
  note can = create_nodes_canonical [OF assms(1)]
  note sub = endpoints_subset_freq [OF assms(1,2)]
  have d: "dom (g_node g) = endpoints ec"
    unfolding g by (auto simp: assembled_node [OF sub] split: if_splits)
  have c1: "\<forall>n\<in>dom (g_node g). 1 \<le> degree g n"
    unfolding d unfolding g using assembled_degree [OF can] by blast
  have c2: "dom (g_node g) \<subseteq> fst ` set (emoji_freq ell)"
    unfolding d by (rule sub)
  have c3: "dom (g_node g) \<subset> fst ` set (emoji_freq ell)"
    if "\<exists>t\<in>fst ` set (emoji_freq ell). \<forall>es\<in>set ell. t \<in> set es \<longrightarrow> set es = {t}"
  proof -
    from that obtain t where t: "t \<in> fst ` set (emoji_freq ell)"
      and l: "\<forall>es\<in>set ell. t \<in> set es \<longrightarrow> set es = {t}" by blast
    have "t \<notin> endpoints ec"
    proof
      assume "t \<in> endpoints ec"
      then obtain es u where "es \<in> set ell" "t \<in> set es" "u \<in> set es" "u \<noteq> t"
        unfolding endpoints_tokens [OF assms(1,2)] by blast
      with l show False by auto
    qed
    with t c2 show ?thesis unfolding d by blast
  qed
  have r: "rows (reviews (new_GraphBuilder df)) = rows df" by (simp add: new_GraphBuilder_def)
  have c4: "\<forall>k. counter_get ec k \<le> int (length (rows df))"
    using pair_count_bound [OF assms(1)] unfolding r by blast
  have c5: "\<forall>(k, n)\<in>set ec. n \<le> int (length (rows df))"
  proof (clarify)
    fix k n assume "(k, n) \<in> set ec"
    then have "counter_get ec k = n" by (rule counter_get_entry [OF can(2)])
    moreover from c4 have "counter_get ec k \<le> int (length (rows df))" ..
    ultimately show "n \<le> int (length (rows df))" by simp
  qed
  from c1 c2 c3 c4 c5 show ?thesis by blast
qed

theorem build_graph_degree_witness:
  "1 \<le> degree (set_node_attributes (add_edges [((py '':heart:'', py '':smile:''), 2)] nx_Graph)
              (emoji_freq [[py '':smile:'', py '':heart:''],
                           [py '':smile:'', py '':heart:'', py '':smile:''], [py '':wow:''], []]))
            (py '':smile:'')
   \<and> py '':wow:'' \<notin> dom (g_node (set_node_attributes
           (add_edges [((py '':heart:'', py '':smile:''), 2)] nx_Graph)
           (emoji_freq [[py '':smile:'', py '':heart:''],
                        [py '':smile:'', py '':heart:'', py '':smile:''], [py '':wow:''], []])))
   \<and> py '':wow:'' \<in> fst ` set (emoji_freq [[py '':smile:'', py '':heart:''],
                        [py '':smile:'', py '':heart:'', py '':smile:''], [py '':wow:''], []])"
proof -
  let ?ell = "[[py '':smile:'', py '':heart:''], [py '':smile:'', py '':heart:'', py '':smile:''],
               [py '':wow:''], []]"
  let ?ec = "[((py '':heart:'', py '':smile:''), 2 :: int)]"
  let ?s1 = "\<lparr>reviews = scenario_A\<lparr>emoji_list := Some ?ell\<rparr>, graph = nx_Graph\<rparr>"
  let ?g = "set_node_attributes (add_edges ?ec nx_Graph) (emoji_freq ?ell)"
  have el: "emoji_list (reviews ?s1) = Some ?ell" by simp
  note sub = endpoints_subset_freq [OF scenario_A_create_nodes el]
  have e: "endpoints ?ec = {py '':heart:'', py '':smile:''}" by (auto simp: endpoints_def)
  have sm: "py '':smile:'' \<in> dom (g_node ?g)"
    by (subst domIff, subst assembled_node [OF sub]) (simp add: e)
  have ne: "py '':wow:'' \<noteq> py '':heart:''" "py '':wow:'' \<noteq> py '':smile:''"
    by (simp_all add: py_def)
  have wn: "py '':wow:'' \<notin> dom (g_node ?g)"
    by (subst domIff, subst assembled_node [OF sub]) (simp add: e ne)
  have wf: "py '':wow:'' \<in> fst ` set (emoji_freq ?ell)"
    by (simp add: keys_emoji_freq)
  have lone: "\<forall>es\<in>set ?ell. py '':wow:'' \<in> set es \<longrightarrow> set es = {py '':wow:''}"
    by (simp add: py_def)
  from build_graph_degree [OF scenario_A_create_nodes el scenario_A_build_graph] sm wn wf lone
  show ?thesis by blast
qed

lemma nbrs_assembled_again:
  assumes "\<forall>((a, b), w)\<in>set ec. a < b" and "distinct (map fst ec)"
  shows "nbrs (add_edges ec (set_node_attributes (add_edges ec nx_Graph) ef)) n x
         = nbrs (set_node_attributes (add_edges ec nx_Graph) ef) n x"
  by (simp add: nbrs_add_edges [OF assembled_dom assms] assembled_nbrs [OF assms]
        split: option.splits)

lemma assemble_again:
  assumes "\<forall>((a, b), w)\<in>set ec. a < b" and "distinct (map fst ec)"
    and "endpoints ec \<subseteq> fst ` set ef"
  shows "set_node_attributes (add_edges ec (set_node_attributes (add_edges ec nx_Graph) ef)) ef
         = set_node_attributes (add_edges ec nx_Graph) ef"
proof (rule nxgraph_eqI)
  let ?G = "set_node_attributes (add_edges ec nx_Graph) ef"
  show "dom (g_adj (set_node_attributes (add_edges ec ?G) ef))
        = dom (g_node (set_node_attributes (add_edges ec ?G) ef))"
    by (simp add: g_adj_set_node_attributes dom_set_node_attributes dom_add_edges [OF assembled_dom])
  show "dom (g_adj ?G) = dom (g_node ?G)" by (rule assembled_dom)
  show "g_node (set_node_attributes (add_edges ec ?G) ef) = g_node ?G"
  proof (rule ext)
    fix n
    show "g_node (set_node_attributes (add_edges ec ?G) ef) n = g_node ?G n"
      using assms(3)
      by (auto simp: g_node_set_node_attributes [of "add_edges ec ?G"] g_node_add_edges [of ec ?G]
            assembled_node [OF assms(3)])
  qed
  show "nbrs (set_node_attributes (add_edges ec ?G) ef) = nbrs ?G"
    by (rule ext, rule ext)
       (simp only: nbrs_set_node_attributes [of "add_edges ec ?G"] nbrs_assembled_again [OF assms(1,2)])
qed

lemma endpoints_cong: "set ec' = set ec \<Longrightarrow> endpoints ec' = endpoints ec"
  by (simp add: endpoints_def)

lemma assemble_permuted:
  assumes "\<forall>((a, b), w)\<in>set ec. a < b" and "distinct (map fst ec)" and "mset ec' = mset ec"
  shows "set_node_attributes (add_edges ec' nx_Graph) ef
         = set_node_attributes (add_edges ec nx_Graph) ef"
proof (rule nxgraph_eqI)
  have s: "set ec' = set ec" using assms(3) by (rule mset_eq_setD)
  have "mset (map fst ec') = mset (map fst ec)" using assms(3) by (metis mset_map)
  then have "distinct (map fst ec') \<longleftrightarrow> distinct (map fst ec)"
    by (rule mset_eq_imp_distinct_iff)
  then have d: "distinct (map fst ec')" using assms(2) by blast
  have c: "\<forall>((a, b), w)\<in>set ec'. a < b" unfolding s by (rule assms(1))
  have m: "map_of ec' = map_of ec"
    using s by (simp add: map_of_inject_set [OF d assms(2)])
  have e: "endpoints ec' = endpoints ec" using s by (rule endpoints_cong)
  show "dom (g_adj (set_node_attributes (add_edges ec' nx_Graph) ef))
        = dom (g_node (set_node_attributes (add_edges ec' nx_Graph) ef))"
    by (rule assembled_dom)
  show "dom (g_adj (set_node_attributes (add_edges ec nx_Graph) ef))
        = dom (g_node (set_node_attributes (add_edges ec nx_Graph) ef))"
    by (rule assembled_dom)
  show "g_node (set_node_attributes (add_edges ec' nx_Graph) ef)
        = g_node (set_node_attributes (add_edges ec nx_Graph) ef)"
    by (rule ext) (simp add: g_node_set_node_attributes g_node_add_edges e)
  show "nbrs (set_node_attributes (add_edges ec' nx_Graph) ef)
        = nbrs (set_node_attributes (add_edges ec nx_Graph) ef)"
  proof (rule ext, rule ext)
    fix n x
    show "nbrs (set_node_attributes (add_edges ec' nx_Graph) ef) n x
          = nbrs (set_node_attributes (add_edges ec nx_Graph) ef) n x"
      unfolding assembled_nbrs [OF c d] assembled_nbrs [OF assms(1,2)] m ..
  qed
qed

lemma build_graph_create_nodes:
  assumes "build_graph self = Inr (self2, g)"
  obtains self1 ec where "create_nodes self = Inr (self1, ec)"
proof (cases "create_nodes self")
  case (Inl e)
  with assms show ?thesis by (simp add: build_graph_def)
next
  case (Inr p)
  then show ?thesis using that by (cases p) auto
qed

lemma create_nodes_rows:
  assumes "create_nodes self = Inr (self1, ec)" and "rows (reviews self') = rows (reviews self)"
  shows "create_nodes self'
         = Inr (self'\<lparr>reviews := (reviews self')\<lparr>emoji_list := emoji_list (reviews self1)\<rparr>\<rparr>, ec)"
proof -
  from create_nodes_Inr [OF assms(1)] obtain ell where
    sa: "series_apply parse_emojis (map emojis (rows (reviews self))) = Inr ell"
    and s1: "self1 = self\<lparr>reviews := (reviews self)\<lparr>emoji_list := Some ell\<rparr>\<rparr>"
    and ec: "ec = foldl count_review [] ell" by blast
  from s1 have "emoji_list (reviews self1) = Some ell" by simp
  then show ?thesis using sa ec assms(2) by (simp add: create_nodes_def)
qed

text \<open>
  C9. A second run of \<open>build_graph\<close>, on the same builder or on a new
  builder over the same reviews, returns the same graph and leaves the same
  state; and the graph assembled from a pair counter of \<open>create_nodes\<close> and
  a frequency counter does not depend on the order in which the entries of the
  pair counter are added.
\<close>

theorem build_graph_idempotent:
  assumes "build_graph (new_GraphBuilder df) = Inr (self2, g)"
  shows "build_graph self2 = Inr (self2, g)
         \<and> build_graph (new_GraphBuilder (reviews self2)) = Inr (self2, g)
         \<and> (\<forall>self1 ec ec' ef. create_nodes (new_GraphBuilder df) = Inr (self1, ec) \<longrightarrow> mset ec' = mset ec
               \<longrightarrow> set_node_attributes (add_edges ec' nx_Graph) ef
                   = set_node_attributes (add_edges ec nx_Graph) ef)"
proof -
  from assms obtain self1 ec where cn: "create_nodes (new_GraphBuilder df) = Inr (self1, ec)"
    by (rule build_graph_create_nodes)
  from create_nodes_Inr [OF cn] obtain ell where
    s1: "self1 = (new_GraphBuilder df)\<lparr>reviews := (reviews (new_GraphBuilder df))\<lparr>emoji_list := Some ell\<rparr>\<rparr>"
    by blast
  then have el: "emoji_list (reviews self1) = Some ell" by simp
  note g = build_graph_fresh [OF cn el assms]
  note can = create_nodes_canonical [OF cn]
  note sub = endpoints_subset_freq [OF cn el]
  have r2: "reviews self2 = df\<lparr>emoji_list := Some ell\<rparr>" and g2: "graph self2 = g"
    unfolding g(2) s1 by (simp_all add: new_GraphBuilder_def)
  have again: "set_node_attributes (add_edges ec g) (emoji_freq ell) = g"
    unfolding g(1) by (rule assemble_again [OF can sub])
  have c1: "build_graph self2 = Inr (self2, g)"
  proof -
    have "rows (reviews self2) = rows (reviews (new_GraphBuilder df))"
      by (simp add: r2 new_GraphBuilder_def)
    from create_nodes_rows [OF cn this]
    have cn2: "create_nodes self2 = Inr (self2, ec)" by (simp add: el r2)
    have "emoji_list (reviews self2) = Some ell" by (simp add: r2)
    from build_graph_Inr [OF cn2 this] show ?thesis by (simp add: g2 again)
  qed
  have c2: "build_graph (new_GraphBuilder (reviews self2)) = Inr (self2, g)"
  proof -
    let ?n = "new_GraphBuilder (reviews self2)"
    have "rows (reviews ?n) = rows (reviews (new_GraphBuilder df))"
      by (simp add: r2 new_GraphBuilder_def)
    from create_nodes_rows [OF cn this]
    have cn2: "create_nodes ?n = Inr (?n, ec)" by (simp add: el r2 new_GraphBuilder_def)
    have "emoji_list (reviews ?n) = Some ell" by (simp add: r2 new_GraphBuilder_def)
    from build_graph_Inr [OF cn2 this]
    have "build_graph ?n = Inr (?n\<lparr>graph := g\<rparr>, g)"
      by (simp add: new_GraphBuilder_def g(1))
    moreover have "?n\<lparr>graph := g\<rparr> = self2"
      by (simp add: new_GraphBuilder_def g2 [symmetric])
    ultimately show ?thesis by simp
  qed
  have c3: "set_node_attributes (add_edges ec' nx_Graph) ef = set_node_attributes (add_edges ec0 nx_Graph) ef"
    if "create_nodes (new_GraphBuilder df) = Inr (s, ec0)" and "mset ec' = mset ec0" for s ec0 ec' ef
    by (rule assemble_permuted [OF create_nodes_canonical [OF that(1)] that(2)])
  from c1 c2 c3 show ?thesis by blast
qed

theorem build_graph_idempotent_witness:
  "build_graph \<lparr>reviews = scenario_A\<lparr>emoji_list :=
              Some [[py '':smile:'', py '':heart:''], [py '':smile:'', py '':heart:'', py '':smile:''],
                    [py '':wow:''], []]\<rparr>,
            graph = set_node_attributes (add_edges [((py '':heart:'', py '':smile:''), 2)] nx_Graph)
              (emoji_freq [[py '':smile:'', py '':heart:''],
                           [py '':smile:'', py '':heart:'', py '':smile:''], [py '':wow:''], []])\<rparr>
   = build_graph (new_GraphBuilder scenario_A)"
  using build_graph_idempotent [OF scenario_A_build_graph] scenario_A_build_graph by simp

section \<open>The input DataFrame\<close>

text \<open>
  C6, as the code has it. \<open>create_nodes\<close> changes no row of the reviews
  and not the graph, but it assigns the column \<open>emoji_list\<close> of the input
  DataFrame itself, with the parsed token lists; \<open>build_graph\<close> leaves the
  reviews in that state. The token lists and the pair counter are computed
  from the rows alone, whatever the builder held before.
\<close>

theorem create_nodes_assigns_emoji_list:
  assumes "create_nodes self = Inr (self1, ec)"
  shows "rows (reviews self1) = rows (reviews self) \<and> graph self1 = graph self
         \<and> (\<exists>ell. series_apply parse_emojis (map emojis (rows (reviews self))) = Inr ell
                \<and> reviews self1 = (reviews self)\<lparr>emoji_list := Some ell\<rparr>
                \<and> ec = foldl count_review [] ell)
         \<and> (\<forall>self2 g. build_graph self = Inr (self2, g) \<longrightarrow> reviews self2 = reviews self1)
         \<and> (\<forall>self'. rows (reviews self') = rows (reviews self)
               \<longrightarrow> create_nodes self'
                   = Inr (self'\<lparr>reviews := (reviews self')\<lparr>emoji_list := emoji_list (reviews self1)\<rparr>\<rparr>, ec))"
proof -
  from create_nodes_Inr [OF assms] obtain ell where
    sa: "series_apply parse_emojis (map emojis (rows (reviews self))) = Inr ell"
    and s1: "self1 = self\<lparr>reviews := (reviews self)\<lparr>emoji_list := Some ell\<rparr>\<rparr>"
    and ec: "ec = foldl count_review [] ell" by blast
  have c1: "rows (reviews self1) = rows (reviews self)" and c2: "graph self1 = graph self"
    unfolding s1 by simp_all
  have r1: "reviews self1 = (reviews self)\<lparr>emoji_list := Some ell\<rparr>"
    unfolding s1 by simp
  have el: "emoji_list (reviews self1) = Some ell" unfolding s1 by simp
  have c4: "reviews self2 = reviews self1" if "build_graph self = Inr (self2, g)" for self2 g
    using build_graph_Inr [OF assms el] that by auto
  have c5: "create_nodes self'
            = Inr (self'\<lparr>reviews := (reviews self')\<lparr>emoji_list := emoji_list (reviews self1)\<rparr>\<rparr>, ec)"
    if "rows (reviews self') = rows (reviews self)" for self'
    by (rule create_nodes_rows [OF assms that])
  from c1 c2 sa r1 ec c4 c5 show ?thesis by blast
qed

theorem create_nodes_assigns_emoji_list_witness:
  "reviews \<lparr>reviews = scenario_A\<lparr>emoji_list :=
              Some [[py '':smile:'', py '':heart:''], [py '':smile:'', py '':heart:'', py '':smile:''],
                    [py '':wow:''], []]\<rparr>, graph = nx_Graph\<rparr>
   = scenario_A\<lparr>emoji_list :=
              Some [[py '':smile:'', py '':heart:''], [py '':smile:'', py '':heart:'', py '':smile:''],
                    [py '':wow:''], []]\<rparr>
   \<and> rows (scenario_A\<lparr>emoji_list :=
              Some [[py '':smile:'', py '':heart:''], [py '':smile:'', py '':heart:'', py '':smile:''],
                    [py '':wow:''], []]\<rparr>) = rows scenario_A"
  using create_nodes_assigns_emoji_list [OF scenario_A_create_nodes]
  by (simp add: new_GraphBuilder_def)

text \<open>
  The claim C6 as stated fails: after \<open>create_nodes\<close> the reviews of
  scenario A hold a column \<open>emoji_list\<close> that the input did not have.
\<close>

theorem reviews_unchanged_counterexample:
  "create_nodes (new_GraphBuilder scenario_A)
   = Inr (\<lparr>reviews = scenario_A\<lparr>emoji_list :=
              Some [[py '':smile:'', py '':heart:''], [py '':smile:'', py '':heart:'', py '':smile:''],
                    [py '':wow:''], []]\<rparr>,
            graph = nx_Graph\<rparr>,
          [((py '':heart:'', py '':smile:''), 2)])
   \<and> emoji_list scenario_A = None
   \<and> scenario_A\<lparr>emoji_list :=
              Some [[py '':smile:'', py '':heart:''], [py '':smile:'', py '':heart:'', py '':smile:''],
                    [py '':wow:''], []]\<rparr> \<noteq> scenario_A"
proof -
  have n: "emoji_list scenario_A = None" by (simp add: scenario_A_def corpus_of_def)
  have "emoji_list (scenario_A\<lparr>emoji_list :=
              Some [[py '':smile:'', py '':heart:''], [py '':smile:'', py '':heart:'', py '':smile:''],
                    [py '':wow:''], []]\<rparr>) \<noteq> emoji_list scenario_A"
    unfolding n by simp
  then have "scenario_A\<lparr>emoji_list :=
              Some [[py '':smile:'', py '':heart:''], [py '':smile:'', py '':heart:'', py '':smile:''],
                    [py '':wow:''], []]\<rparr> \<noteq> scenario_A"
    by (metis)
  with n scenario_A_create_nodes show ?thesis by simp
qed

end
